theory Spec2Isabelle
  imports Main
begin

section \<open>Strings of the Go standard library\<close>

text \<open>
  Go strings are byte sequences; they are modelled as \<open>string\<close> (a list of 8-bit
  characters).  \<open>strings.Split(s, ",")\<close> cuts at every comma and always returns at
  least one token (the empty string gives one empty token).
\<close>

fun strings_Split :: "string \<Rightarrow> char \<Rightarrow> string list" where
  "strings_Split [] sep = [[]]"
| "strings_Split (c # cs) sep =
     (if c = sep then [] # strings_Split cs sep
      else (case strings_Split cs sep of
              [] \<Rightarrow> [[c]]
            | t # ts \<Rightarrow> (c # t) # ts))"

section \<open>Collaborators outside the source file\<close>

text \<open>
  \<open>jsonfield.go\<close> calls \<open>utils.CamelSplit\<close>, \<open>utils.Capitalize\<close> and
  \<open>gotypes.IsFieldExportable\<close>, which live in other packages of the repository, and
  \<open>strings.ToLower\<close> of the Go standard library, which lower-cases every letter by
  the case tables of Unicode.  Every function of the model takes the four of them as a
  parameter, so that what is proved holds for whatever these functions compute.
  \<open>utils.TagMap\<close> is taken by its result: a field declaration carries its tag already
  tokenized into key/value pairs.
\<close>

record collaborators =
  CamelSplit :: "string \<Rightarrow> string \<Rightarrow> string"
  Capitalize :: "string \<Rightarrow> string"
  IsFieldExportable :: "string \<Rightarrow> bool"
  ToLower :: "string \<Rightarrow> string"

section \<open>Types and values seen through reflection\<close>

text \<open>
  \<open>StructField\<close> holds what the walkers and \<open>reflect\<close> read of a
  \<open>reflect.StructField\<close>: the name, the package path, the \<open>Anonymous\<close> flag and
  the tag (as \<open>utils.TagMap\<close> returns it; a key is looked up with \<open>map_of\<close>).
  \<open>PkgPath\<close> is empty exactly for a field that Go treats as exported
  (\<open>StructField.IsExported\<close>); the walkers decide with \<open>gotypes.IsFieldExportable\<close>
  on the name instead, but \<open>Value.Field\<close> marks the value of a field with a package
  path read-only.  The declared type of a field is the static type of its value, see
  \<open>TypeOf\<close> below.
\<close>

record StructField =
  Name :: string
  PkgPath :: string
  Anonymous :: bool
  Tag :: "(string \<times> string) list"

text \<open>
  A \<open>reflect.Type\<close>, with the name of the type where it has one.  \<open>BasicT\<close> stands
  for every type whose kind is none of \<open>Struct\<close>, \<open>Ptr\<close>, \<open>Interface\<close>; the
  walkers never look inside such a type.  A type is a finite tree here: a record type
  that embeds a pointer to itself, on which the walkers that allocate do not come to an
  end, is not among the inputs of the model.
\<close>

datatype gotype =
    BasicT string
  | StructT string "(StructField \<times> gotype) list"
  | PtrT gotype
  | InterfaceT string

text \<open>
  The data behind a \<open>reflect.Value\<close>.  \<open>VBasic\<close> carries the name of its type and
  an opaque content.  A struct lists its fields in declaration order, each with its
  declaration.  A pointer knows its element type and is nil (\<open>None\<close>) or owns its
  target; an interface is nil or holds a dynamic value.  Values are trees: two pointers
  never share a target, and no pointer leads back to a record that contains it.
\<close>

datatype govalue =
    VBasic string string
  | VStruct string "(StructField \<times> govalue) list"
  | VPtr gotype "govalue option"
  | VInterface string "govalue option"

primrec TypeOf :: "govalue \<Rightarrow> gotype" where
  "TypeOf (VBasic n p) = BasicT n"
| "TypeOf (VStruct n fs) = StructT n (map (map_prod id TypeOf) fs)"
| "TypeOf (VPtr t tgt) = PtrT t"
| "TypeOf (VInterface n d) = InterfaceT n"

text \<open>\<open>reflect.Zero\<close>: the zero value of a type; \<open>reflect.New(t)\<close> points to it.\<close>

primrec Zero :: "gotype \<Rightarrow> govalue" where
  "Zero (BasicT n) = VBasic n []"
| "Zero (StructT n fs) = VStruct n (map (map_prod id Zero) fs)"
| "Zero (PtrT t) = VPtr t None"
| "Zero (InterfaceT n) = VInterface n None"

text \<open>
  \<open>gotypes.TimeType\<close> is \<open>reflect.TypeOf(time.Time{})\<close>: the struct type
  \<open>time.Time\<close> of the Go standard library, whose fields are all unexported (the
  record behind \<open>loc\<close> is not spelled out).  The walkers compare the declared type
  of a field with it.
\<close>

definition TimeType :: gotype where
  "TimeType = StructT ''time.Time''
     [(\<lparr>Name = ''wall'', PkgPath = ''time'', Anonymous = False, Tag = []\<rparr>, BasicT ''uint64''),
      (\<lparr>Name = ''ext'', PkgPath = ''time'', Anonymous = False, Tag = []\<rparr>, BasicT ''int64''),
      (\<lparr>Name = ''loc'', PkgPath = ''time'', Anonymous = False, Tag = []\<rparr>,
       PtrT (BasicT ''time.Location''))]"

text \<open>
  A \<open>reflect.Value\<close> as the walkers hand it out in an entry: its data, and whether
  it carries one of the read-only marks (\<open>flagRO\<close>) that \<open>reflect\<close> puts on a value
  reached through an unexported field.  \<open>CanInterface\<close> is false of such a value and
  \<open>Interface\<close> panics on it (\<open>None\<close>).
\<close>

record reflect_Value =
  data :: govalue
  flagRO :: bool

definition CanInterface :: "reflect_Value \<Rightarrow> bool" where
  "CanInterface v = (\<not> flagRO v)"

definition Interface :: "reflect_Value \<Rightarrow> govalue option" where
  "Interface v = (if flagRO v then None else Some (data v))"

section \<open>The tag parser\<close>

record SStructFieldInfo =
  Ignore :: bool
  OmitEmpty :: bool
  OmitFalse :: bool
  OmitZero :: bool
  Name :: string
  FieldName :: string
  ForceString :: bool
  Tags :: "(string \<times> string) list"

text \<open>One turn of the loop over \<open>keys[1:]\<close>: the \<open>switch\<close> on the lower-cased token.\<close>

definition applyOption :: "collaborators \<Rightarrow> SStructFieldInfo \<Rightarrow> string \<Rightarrow> SStructFieldInfo" where
  "applyOption h info k =
     (let l = ToLower h k in
      if l = ''omitempty'' then info\<lparr>OmitEmpty := True\<rparr>
      else if l = ''allowempty'' then info\<lparr>OmitEmpty := False\<rparr>
      else if l = ''omitzero'' then info\<lparr>OmitZero := True\<rparr>
      else if l = ''allowzero'' then info\<lparr>OmitZero := False\<rparr>
      else if l = ''omitfalse'' then info\<lparr>OmitFalse := True\<rparr>
      else if l = ''allowfalse'' then info\<lparr>OmitFalse := False\<rparr>
      else if l = ''string'' then info\<lparr>ForceString := True\<rparr>
      else info)"

fun applyOptions :: "collaborators \<Rightarrow> SStructFieldInfo \<Rightarrow> string list \<Rightarrow> SStructFieldInfo" where
  "applyOptions h info [] = info"
| "applyOptions h info (k # ks) = applyOptions h (applyOption h info k) ks"

text \<open>Lines 38 to 44: the policy before the tags are read.\<close>

definition initialInfo :: "StructField \<Rightarrow> SStructFieldInfo" where
  "initialInfo sf =
     \<lparr>Ignore = False, OmitEmpty = True, OmitFalse = False, OmitZero = False,
      Name = [], FieldName = StructField.Name sf, ForceString = False, Tags = Tag sf\<rparr>"

definition ParseStructFieldJsonInfo :: "collaborators \<Rightarrow> StructField \<Rightarrow> SStructFieldInfo" where
  "ParseStructFieldJsonInfo h sf =
     (let info = initialInfo sf;
          info = (case map_of (Tags info) ''json'' of
                    None \<Rightarrow> info
                  | Some val \<Rightarrow>
                      (let keys = strings_Split val (CHR '','');
                           info = (if length keys > 0 then
                                     (if hd keys = ''-'' then
                                        (if length keys > 1 then info\<lparr>Name := hd keys\<rparr>
                                         else info\<lparr>Ignore := True\<rparr>)
                                      else info\<lparr>Name := hd keys\<rparr>)
                                   else info)
                       in if length keys > 1 then applyOptions h info (tl keys) else info))
      in (case map_of (Tags info) ''name'' of
            None \<Rightarrow> info
          | Some val \<Rightarrow> info\<lparr>Name := val\<rparr>))"

text \<open>
  \<open>MarshalName\<close> has a pointer receiver and stores the derived name: the model returns
  the name together with the updated policy.
\<close>

definition MarshalName :: "collaborators \<Rightarrow> SStructFieldInfo \<Rightarrow> string \<times> SStructFieldInfo" where
  "MarshalName h info =
     (if length (Name info) > 0 then (Name info, info)
      else (let info' = info\<lparr>Name := CamelSplit h (FieldName info) ''_''\<rparr>
            in (Name info', info')))"

section \<open>Measures for the recursion of the walkers\<close>

text \<open>
  The walkers recurse into the target of an embedded pointer, into the value an
  embedded interface holds, and into the zero value they allocate for a nil embedded
  pointer.  \<open>weight\<close> counts a nil pointer as heavy as the zero value of its element
  type, so that each of these steps decreases it.
\<close>

primrec zeroWeight :: "gotype \<Rightarrow> nat" where
  "zeroWeight (BasicT n) = 0"
| "zeroWeight (StructT n fs) = Suc (sum_list (map (\<lambda>p. Suc (snd p)) (map (map_prod id zeroWeight) fs)))"
| "zeroWeight (PtrT t) = Suc (zeroWeight t)"
| "zeroWeight (InterfaceT n) = Suc 0"

primrec weight :: "govalue \<Rightarrow> nat" where
  "weight (VBasic n p) = 0"
| "weight (VStruct n fs) = Suc (sum_list (map (\<lambda>p. Suc (snd p)) (map (map_prod id weight) fs)))"
| "weight (VPtr t tgt) = Suc (case map_option weight tgt of None \<Rightarrow> zeroWeight t | Some w \<Rightarrow> w)"
| "weight (VInterface n d) = Suc (case map_option weight d of None \<Rightarrow> 0 | Some w \<Rightarrow> w)"

definition fieldsWeight :: "(StructField \<times> govalue) list \<Rightarrow> nat" where
  "fieldsWeight fs = sum_list (map (\<lambda>p. Suc (weight (snd p))) fs)"

section \<open>The schema walker\<close>

text \<open>
  A \<open>reflect.Value\<close> that a walker works on is passed as its data together with two
  of its flags: \<open>addr\<close>, whether it is addressable, and \<open>ro\<close>, whether it carries
  \<open>flagStickyRO\<close>, the read-only mark that its fields inherit.  As in package
  \<open>reflect\<close>:

    \<^item> \<open>Field(i)\<close> of a struct is addressable when the struct is and inherits
      \<open>flagStickyRO\<close>; when the field is unexported (\<open>PkgPath\<close> is not empty) it is
      marked read-only on its own account, with \<open>flagEmbedRO\<close> when embedded and
      \<open>flagStickyRO\<close> otherwise.  \<open>flagEmbedRO\<close> of the struct itself is not
      inherited, so it plays no part for a value whose fields are walked.
    \<^item> \<open>Elem\<close> of a pointer is addressable and keeps both marks of the pointer;
      \<open>Elem\<close> of an interface is not addressable and carries \<open>flagStickyRO\<close> when
      the interface carries either mark.
    \<^item> \<open>fv.Set\<close> panics unless \<open>fv\<close> is addressable and carries neither mark; a
      panic is the result \<open>None\<close>.

  \<open>fieldRO ro sf\<close> says whether the value of field \<open>sf\<close> of a struct with flag
  \<open>ro\<close> carries a read-only mark.
\<close>

definition fieldRO :: "bool \<Rightarrow> StructField \<Rightarrow> bool" where
  "fieldRO ro sf = (ro \<or> PkgPath sf \<noteq> [])"

text \<open>
  Lines 296 to 301: the pointer step of \<open>fetchStructFieldInfos\<close>, on a field value
  that is addressable or not (\<open>addr\<close>) and read-only or not (\<open>fro\<close>).  It returns
  the field as it is stored afterwards, the value now held in \<open>fv\<close>, and whether that
  value is addressable; the read-only marks are those of the field.
\<close>

definition infosPtrElem :: "bool \<Rightarrow> bool \<Rightarrow> govalue \<Rightarrow> (govalue \<times> govalue \<times> bool) option" where
  "infosPtrElem addr fro fv =
     (case fv of
        VPtr t tgt \<Rightarrow>
          (case tgt of
             None \<Rightarrow>
               if addr \<and> \<not> fro then Some (VPtr t (Some (Zero t)), Zero t, True) else None
           | Some w \<Rightarrow> Some (fv, w, True))
      | _ \<Rightarrow> Some (fv, fv, addr))"

text \<open>
  Lines 302 to 304: the interface step, on a value with the flags \<open>addr\<close> and \<open>ro\<close>
  (\<open>flagStickyRO\<close>) that carries a read-only mark or not (\<open>fro\<close>).  \<open>Elem\<close> of a
  nil interface is the invalid \<open>reflect.Value\<close>, here \<open>None\<close>.  It returns the value
  now held in \<open>fv\<close> with its flags \<open>addr\<close> and \<open>flagStickyRO\<close>.
\<close>

definition infosIfaceElem ::
  "bool \<Rightarrow> bool \<Rightarrow> bool \<Rightarrow> govalue \<Rightarrow> govalue option \<times> bool \<times> bool" where
  "infosIfaceElem addr ro fro fv =
     (case fv of
        VInterface n d \<Rightarrow> (d, False, fro)
      | _ \<Rightarrow> (Some fv, addr, ro))"

text \<open>
  Writing a walked struct back to where \<open>Elem\<close> found it; for the schema walker,
  which may have gone through a pointer and then an interface, under both.
\<close>

definition setElem :: "govalue \<Rightarrow> govalue \<Rightarrow> govalue" where
  "setElem fv w =
     (case fv of
        VPtr t tgt \<Rightarrow> VPtr t (Some w)
      | VInterface n d \<Rightarrow> VInterface n (Some w)
      | _ \<Rightarrow> w)"

definition infosSetElem :: "govalue \<Rightarrow> govalue \<Rightarrow> govalue \<Rightarrow> govalue" where
  "infosSetElem fv1 e1 w =
     (case fv1 of
        VPtr t tgt \<Rightarrow> VPtr t (Some (setElem e1 w))
      | _ \<Rightarrow> setElem e1 w)"

lemma weight_Zero: "weight (Zero t) = zeroWeight t"
  by (induction t) (auto simp: list.map_comp comp_def intro!: arg_cong[where f = sum_list] map_cong)

lemma weight_VStruct [simp]: "weight (VStruct n fs) = Suc (fieldsWeight fs)"
  by (simp add: fieldsWeight_def list.map_comp comp_def)

declare weight.simps(2) [simp del]

lemma fieldsWeight_simps [simp]:
  "fieldsWeight [] = 0"
  "fieldsWeight ((sf, fv) # rest) = Suc (weight fv + fieldsWeight rest)"
  by (simp_all add: fieldsWeight_def)

lemma infosPtrElem_weight:
  "infosPtrElem addr fro fv = Some (fv1, e, a) \<Longrightarrow> weight e \<le> weight fv"
  by (auto simp: infosPtrElem_def weight_Zero split: govalue.splits option.splits if_splits)

lemma infosIfaceElem_weight:
  "infosIfaceElem addr ro fro fv = (Some e, a, r) \<Longrightarrow> weight e \<le> weight fv"
  by (auto simp: infosIfaceElem_def split: govalue.splits)

text \<open>
  The loop of \<open>fetchStructFieldInfos\<close> over the fields of a struct with the flags
  \<open>addr\<close> and \<open>ro\<close>.  It returns the policies and the fields as the walk leaves
  them.
\<close>

function fetchStructFieldInfos_loop ::
  "collaborators \<Rightarrow> bool \<Rightarrow> bool \<Rightarrow> (StructField \<times> govalue) list \<Rightarrow>
     (SStructFieldInfo list \<times> (StructField \<times> govalue) list) option" where
  "fetchStructFieldInfos_loop h addr ro [] = Some ([], [])"
| "fetchStructFieldInfos_loop h addr ro ((sf, fv) # rest) =
     (if \<not> IsFieldExportable h (StructField.Name sf) then
        (case fetchStructFieldInfos_loop h addr ro rest of
           None \<Rightarrow> None
         | Some (ret, rest') \<Rightarrow> Some (ret, (sf, fv) # rest'))
      else if \<not> Anonymous sf then
        (case fetchStructFieldInfos_loop h addr ro rest of
           None \<Rightarrow> None
         | Some (ret, rest') \<Rightarrow> Some (ParseStructFieldJsonInfo h sf # ret, (sf, fv) # rest'))
      else
        (case infosPtrElem addr (fieldRO ro sf) fv of
           None \<Rightarrow> None
         | Some (fv1, e1, a1) \<Rightarrow>
             (case infosIfaceElem a1 ro (fieldRO ro sf) e1 of
                (Some (VStruct n fs), a2, r2) \<Rightarrow>
                  if TypeOf fv \<noteq> TimeType then
                    (case fetchStructFieldInfos_loop h a2 r2 fs of
                       None \<Rightarrow> None
                     | Some (subInfo, fs') \<Rightarrow>
                         (case fetchStructFieldInfos_loop h addr ro rest of
                            None \<Rightarrow> None
                          | Some (ret, rest') \<Rightarrow>
                              Some (subInfo @ ret,
                                    (sf, infosSetElem fv1 e1 (VStruct n fs')) # rest')))
                  else
                    (case fetchStructFieldInfos_loop h addr ro rest of
                       None \<Rightarrow> None
                     | Some (ret, rest') \<Rightarrow>
                         Some (ParseStructFieldJsonInfo h sf # ret, (sf, fv1) # rest'))
              | _ \<Rightarrow>
                  (case fetchStructFieldInfos_loop h addr ro rest of
                     None \<Rightarrow> None
                   | Some (ret, rest') \<Rightarrow>
                       Some (ParseStructFieldJsonInfo h sf # ret, (sf, fv1) # rest')))))"
  by pat_completeness auto
termination
  by (relation "measure (\<lambda>(h, addr, ro, fs). fieldsWeight fs)")
     (auto dest!: infosPtrElem_weight infosIfaceElem_weight [OF sym])

definition fetchStructFieldInfos ::
  "collaborators \<Rightarrow> bool \<Rightarrow> bool \<Rightarrow> govalue \<Rightarrow> (SStructFieldInfo list \<times> govalue) option" where
  "fetchStructFieldInfos h addr ro dataValue =
     (case dataValue of
        VStruct n fs \<Rightarrow>
          (case fetchStructFieldInfos_loop h addr ro fs of
             None \<Rightarrow> None
           | Some (ret, fs') \<Rightarrow> Some (ret, VStruct n fs'))
      | _ \<Rightarrow> None)"

section \<open>The schema cache\<close>

text \<open>
  \<open>structFieldInfoCache\<close> is a process-wide map from types to schemas; it is passed
  in and returned.  Calls are sequential in the model.
\<close>

type_synonym cache = "gotype \<Rightarrow> SStructFieldInfo list option"

definition cachefetchStructFieldInfos ::
  "collaborators \<Rightarrow> cache \<Rightarrow> bool \<Rightarrow> bool \<Rightarrow> govalue \<Rightarrow>
     (SStructFieldInfo list \<times> cache \<times> govalue) option" where
  "cachefetchStructFieldInfos h c addr ro dataValue =
     (let dataType = TypeOf dataValue in
      case c dataType of
        Some r \<Rightarrow> Some (r, c, dataValue)
      | None \<Rightarrow>
          (case fetchStructFieldInfos h addr ro dataValue of
             None \<Rightarrow> None
           | Some (f, dataValue') \<Rightarrow> Some (f, c(dataType \<mapsto> f), dataValue')))"

section \<open>The value walkers\<close>

text \<open>
  Lines 124 to 137 and 328 to 342: what both value walkers do with an embedded field
  before they look at its kind; the field value has the flags \<open>addr\<close> and \<open>ro\<close>
  (\<open>flagStickyRO\<close>) and carries a read-only mark or not (\<open>fro\<close>).  \<open>NilSkip\<close> is
  the \<open>continue\<close> on a nil pointer or interface that is not allocated;
  \<open>Elem fv1 e a r\<close> gives the field as stored afterwards, the value now held in
  \<open>fv\<close>, whether it is addressable and whether it carries \<open>flagStickyRO\<close>.
\<close>

datatype indirection = Panic | NilSkip | Elem govalue govalue bool bool

definition valueElem :: "bool \<Rightarrow> bool \<Rightarrow> bool \<Rightarrow> bool \<Rightarrow> govalue \<Rightarrow> indirection" where
  "valueElem addr ro fro allocatePtr fv =
     (case fv of
        VPtr t tgt \<Rightarrow>
          (case tgt of
             None \<Rightarrow>
               if allocatePtr then
                 (if addr \<and> \<not> fro then Elem (VPtr t (Some (Zero t))) (Zero t) True ro else Panic)
               else NilSkip
           | Some w \<Rightarrow> Elem fv w True ro)
      | VInterface n d \<Rightarrow>
          (case d of
             None \<Rightarrow> NilSkip
           | Some w \<Rightarrow> Elem fv w False fro)
      | _ \<Rightarrow> Elem fv fv addr ro)"

lemma valueElem_weight:
  "valueElem addr ro fro allocatePtr fv = Elem fv1 e a r \<Longrightarrow> weight e \<le> weight fv"
  by (auto simp: valueElem_def weight_Zero split: govalue.splits option.splits if_splits)

record SStructFieldValue =
  Info :: SStructFieldInfo
  Value :: reflect_Value

record SStructFieldValueV2 =
  Value :: reflect_Value
  Index :: int

record SStructFieldValueSetV2 =
  Infos :: "SStructFieldInfo list"
  Values :: "SStructFieldValueV2 list"

text \<open>
  An entry holds the value of its field as the walker saw it, read-only when the field
  value is (\<open>fieldRO\<close>: \<open>Elem\<close> hands the marks on).  \<open>Index\<close> and the results of
  name resolution are Go \<open>int\<close>s, modelled as unbounded integers (they count
  fields).  A field of a valid struct is a valid \<open>reflect.Value\<close>, so the tests
  \<open>!fv.IsValid()\<close> of the walkers never fire and have no branch here.  The loop of
  \<open>fetchStructFieldValueSet\<close>:
\<close>

function fetchStructFieldValueSet_loop ::
  "collaborators \<Rightarrow> bool \<Rightarrow> bool \<Rightarrow> (StructField \<times> govalue) list \<Rightarrow> bool \<Rightarrow>
     (SStructFieldValue list \<times> (StructField \<times> govalue) list) option" where
  "fetchStructFieldValueSet_loop h addr ro [] allocatePtr = Some ([], [])"
| "fetchStructFieldValueSet_loop h addr ro ((sf, fv) # rest) allocatePtr =
     (if \<not> IsFieldExportable h (StructField.Name sf) then
        (case fetchStructFieldValueSet_loop h addr ro rest allocatePtr of
           None \<Rightarrow> None
         | Some (flds, rest') \<Rightarrow> Some (flds, (sf, fv) # rest'))
      else if \<not> Anonymous sf then
        (case fetchStructFieldValueSet_loop h addr ro rest allocatePtr of
           None \<Rightarrow> None
         | Some (flds, rest') \<Rightarrow>
             Some (\<lparr>Info = ParseStructFieldJsonInfo h sf,
                    SStructFieldValue.Value = \<lparr>data = fv, flagRO = fieldRO ro sf\<rparr>\<rparr> # flds,
                   (sf, fv) # rest'))
      else
        (case valueElem addr ro (fieldRO ro sf) allocatePtr fv of
           Panic \<Rightarrow> None
         | NilSkip \<Rightarrow>
             (case fetchStructFieldValueSet_loop h addr ro rest allocatePtr of
                None \<Rightarrow> None
              | Some (flds, rest') \<Rightarrow> Some (flds, (sf, fv) # rest'))
         | Elem fv1 e a r \<Rightarrow>
             (case e of
                VStruct n fs \<Rightarrow>
                  if TypeOf fv \<noteq> TimeType then
                    (case fetchStructFieldValueSet_loop h a r fs allocatePtr of
                       None \<Rightarrow> None
                     | Some (subfields, fs') \<Rightarrow>
                         (case fetchStructFieldValueSet_loop h addr ro rest allocatePtr of
                            None \<Rightarrow> None
                          | Some (flds, rest') \<Rightarrow>
                              Some (subfields @ flds,
                                    (sf, setElem fv1 (VStruct n fs')) # rest')))
                  else
                    (case fetchStructFieldValueSet_loop h addr ro rest allocatePtr of
                       None \<Rightarrow> None
                     | Some (flds, rest') \<Rightarrow>
                         Some (\<lparr>Info = ParseStructFieldJsonInfo h sf,
                                SStructFieldValue.Value = \<lparr>data = e, flagRO = fieldRO ro sf\<rparr>\<rparr> # flds,
                               (sf, fv1) # rest'))
              | _ \<Rightarrow>
                  (case fetchStructFieldValueSet_loop h addr ro rest allocatePtr of
                     None \<Rightarrow> None
                   | Some (flds, rest') \<Rightarrow>
                       Some (\<lparr>Info = ParseStructFieldJsonInfo h sf,
                              SStructFieldValue.Value = \<lparr>data = e, flagRO = fieldRO ro sf\<rparr>\<rparr> # flds,
                             (sf, fv1) # rest')))))"
  by pat_completeness auto
termination
  by (relation "measure (\<lambda>(h, addr, ro, fs, allocatePtr). fieldsWeight fs)")
     (auto dest!: valueElem_weight)

definition fetchStructFieldValueSet ::
  "collaborators \<Rightarrow> bool \<Rightarrow> bool \<Rightarrow> govalue \<Rightarrow> bool \<Rightarrow>
     (SStructFieldValue list \<times> govalue) option" where
  "fetchStructFieldValueSet h addr ro dataValue allocatePtr =
     (case dataValue of
        VStruct n fs \<Rightarrow>
          (case fetchStructFieldValueSet_loop h addr ro fs allocatePtr of
             None \<Rightarrow> None
           | Some (flds, fs') \<Rightarrow> Some (flds, VStruct n fs'))
      | _ \<Rightarrow> None)"

definition FetchStructFieldValueSet ::
  "collaborators \<Rightarrow> bool \<Rightarrow> bool \<Rightarrow> govalue \<Rightarrow> (SStructFieldValue list \<times> govalue) option" where
  "FetchStructFieldValueSet h addr ro dataValue = fetchStructFieldValueSet h addr ro dataValue False"

definition FetchStructFieldValueSetForWrite ::
  "collaborators \<Rightarrow> bool \<Rightarrow> bool \<Rightarrow> govalue \<Rightarrow> (SStructFieldValue list \<times> govalue) option" where
  "FetchStructFieldValueSetForWrite h addr ro dataValue =
     fetchStructFieldValueSet h addr ro dataValue True"

text \<open>The loop of \<open>fetchStructFieldValueV2s\<close>, which threads the schema index.\<close>

function fetchStructFieldValueV2s_loop ::
  "collaborators \<Rightarrow> bool \<Rightarrow> bool \<Rightarrow> (StructField \<times> govalue) list \<Rightarrow> bool \<Rightarrow> int \<Rightarrow>
     (SStructFieldValueV2 list \<times> int \<times> (StructField \<times> govalue) list) option" where
  "fetchStructFieldValueV2s_loop h addr ro [] allocatePtr index = Some ([], index, [])"
| "fetchStructFieldValueV2s_loop h addr ro ((sf, fv) # rest) allocatePtr index =
     (if \<not> IsFieldExportable h (StructField.Name sf) then
        (case fetchStructFieldValueV2s_loop h addr ro rest allocatePtr index of
           None \<Rightarrow> None
         | Some (ret, index', rest') \<Rightarrow> Some (ret, index', (sf, fv) # rest'))
      else if \<not> Anonymous sf then
        (case fetchStructFieldValueV2s_loop h addr ro rest allocatePtr (index + 1) of
           None \<Rightarrow> None
         | Some (ret, index', rest') \<Rightarrow>
             Some (\<lparr>Value = \<lparr>data = fv, flagRO = fieldRO ro sf\<rparr>, Index = index\<rparr> # ret, index',
                   (sf, fv) # rest'))
      else
        (case valueElem addr ro (fieldRO ro sf) allocatePtr fv of
           Panic \<Rightarrow> None
         | NilSkip \<Rightarrow>
             (case fetchStructFieldValueV2s_loop h addr ro rest allocatePtr (index + 1) of
                None \<Rightarrow> None
              | Some (ret, index', rest') \<Rightarrow> Some (ret, index', (sf, fv) # rest'))
         | Elem fv1 e a r \<Rightarrow>
             (case e of
                VStruct n fs \<Rightarrow>
                  if TypeOf fv \<noteq> TimeType then
                    (case fetchStructFieldValueV2s_loop h a r fs allocatePtr index of
                       None \<Rightarrow> None
                     | Some (subValues, index1, fs') \<Rightarrow>
                         (case fetchStructFieldValueV2s_loop h addr ro rest allocatePtr index1 of
                            None \<Rightarrow> None
                          | Some (ret, index', rest') \<Rightarrow>
                              Some (subValues @ ret, index',
                                    (sf, setElem fv1 (VStruct n fs')) # rest')))
                  else
                    (case fetchStructFieldValueV2s_loop h addr ro rest allocatePtr (index + 1) of
                       None \<Rightarrow> None
                     | Some (ret, index', rest') \<Rightarrow>
                         Some (\<lparr>Value = \<lparr>data = e, flagRO = fieldRO ro sf\<rparr>, Index = index\<rparr> # ret,
                               index', (sf, fv1) # rest'))
              | _ \<Rightarrow>
                  (case fetchStructFieldValueV2s_loop h addr ro rest allocatePtr (index + 1) of
                     None \<Rightarrow> None
                   | Some (ret, index', rest') \<Rightarrow>
                       Some (\<lparr>Value = \<lparr>data = e, flagRO = fieldRO ro sf\<rparr>, Index = index\<rparr> # ret,
                             index', (sf, fv1) # rest')))))"
  by pat_completeness auto
termination
  by (relation "measure (\<lambda>(h, addr, ro, fs, allocatePtr, index). fieldsWeight fs)")
     (auto dest!: valueElem_weight)

definition fetchStructFieldValueV2s ::
  "collaborators \<Rightarrow> bool \<Rightarrow> bool \<Rightarrow> govalue \<Rightarrow> bool \<Rightarrow> int \<Rightarrow>
     (SStructFieldValueV2 list \<times> int \<times> govalue) option" where
  "fetchStructFieldValueV2s h addr ro dataValue allocatePtr index =
     (case dataValue of
        VStruct n fs \<Rightarrow>
          (case fetchStructFieldValueV2s_loop h addr ro fs allocatePtr index of
             None \<Rightarrow> None
           | Some (ret, index', fs') \<Rightarrow> Some (ret, index', VStruct n fs'))
      | _ \<Rightarrow> None)"

definition FetchStructFieldValueSetV2 ::
  "collaborators \<Rightarrow> cache \<Rightarrow> bool \<Rightarrow> bool \<Rightarrow> govalue \<Rightarrow>
     (SStructFieldValueSetV2 \<times> cache \<times> govalue) option" where
  "FetchStructFieldValueSetV2 h c addr ro dataValue =
     (case cachefetchStructFieldInfos h c addr ro dataValue of
        None \<Rightarrow> None
      | Some (infos, c', dataValue1) \<Rightarrow>
          (case fetchStructFieldValueV2s h addr ro dataValue1 False 0 of
             None \<Rightarrow> None
           | Some (values, index', dataValue2) \<Rightarrow>
               Some (\<lparr>Infos = infos, Values = values\<rparr>, c', dataValue2)))"

definition FetchStructFieldValueSetForWriteV2 ::
  "collaborators \<Rightarrow> cache \<Rightarrow> bool \<Rightarrow> bool \<Rightarrow> govalue \<Rightarrow>
     (SStructFieldValueSetV2 \<times> cache \<times> govalue) option" where
  "FetchStructFieldValueSetForWriteV2 h c addr ro dataValue =
     (case cachefetchStructFieldInfos h c addr ro dataValue of
        None \<Rightarrow> None
      | Some (infos, c', dataValue1) \<Rightarrow>
          (case fetchStructFieldValueV2s h addr ro dataValue1 True 0 of
             None \<Rightarrow> None
           | Some (values, index', dataValue2) \<Rightarrow>
               Some (\<lparr>Infos = infos, Values = values\<rparr>, c', dataValue2)))"

section \<open>Name resolution\<close>

text \<open>
  The loop of \<open>SStructFieldValueSet.GetStructFieldIndex\<close>, from position \<open>i\<close> on.
  \<open>jsonInfo\<close> is a copy of the entry's policy, so the name \<open>MarshalName\<close> stores is
  dropped with it.
\<close>

fun GetStructFieldIndex_loop ::
  "collaborators \<Rightarrow> SStructFieldValue list \<Rightarrow> string \<Rightarrow> int \<Rightarrow> int" where
  "GetStructFieldIndex_loop h [] name i = - 1"
| "GetStructFieldIndex_loop h (x # xs) name i =
     (let (marshalName, jsonInfo) = MarshalName h (Info x) in
      if marshalName = name then i
      else if CamelSplit h (FieldName jsonInfo) ''_'' = CamelSplit h name ''_'' then i
      else if FieldName jsonInfo = name then i
      else if FieldName jsonInfo = Capitalize h name then i
      else GetStructFieldIndex_loop h xs name (i + 1))"

definition GetStructFieldIndex :: "collaborators \<Rightarrow> SStructFieldValue list \<Rightarrow> string \<Rightarrow> int" where
  "GetStructFieldIndex h fvs name = GetStructFieldIndex_loop h fvs name 0"

text \<open>
  \<open>set[idx]\<close> panics out of range (\<open>None\<close>).  The result is the value and the
  \<open>found\<close> flag; the zero \<open>reflect.Value{}\<close> and the nil interface are \<open>None\<close>.
\<close>

definition GetValue ::
  "collaborators \<Rightarrow> SStructFieldValue list \<Rightarrow> string \<Rightarrow> (reflect_Value option \<times> bool) option" where
  "GetValue h fvs name =
     (let idx = GetStructFieldIndex h fvs name in
      if idx < 0 then Some (None, False)
      else if nat idx < length fvs then Some (Some (SStructFieldValue.Value (fvs ! nat idx)), True)
      else None)"

definition GetInterface ::
  "collaborators \<Rightarrow> SStructFieldValue list \<Rightarrow> string \<Rightarrow> (govalue option \<times> bool) option" where
  "GetInterface h fvs name =
     (let idx = GetStructFieldIndex h fvs name in
      if idx < 0 then Some (None, False)
      else if nat idx < length fvs then
        (if CanInterface (SStructFieldValue.Value (fvs ! nat idx)) then
           (case Interface (SStructFieldValue.Value (fvs ! nat idx)) of
              None \<Rightarrow> None
            | Some x \<Rightarrow> Some (Some x, True))
         else Some (None, False))
      else None)"

text \<open>The first loop of \<open>SStructFieldValueSetV2.getStructFieldIndex\<close>, over \<open>set.Infos\<close>.\<close>

fun getStructFieldIndex_match ::
  "collaborators \<Rightarrow> SStructFieldInfo list \<Rightarrow> string \<Rightarrow> int \<Rightarrow> int" where
  "getStructFieldIndex_match h [] name i = - 1"
| "getStructFieldIndex_match h (x # xs) name i =
     (let (marshalName, jsonInfo) = MarshalName h x in
      if marshalName = name then i
      else if CamelSplit h (FieldName jsonInfo) ''_'' = CamelSplit h name ''_'' then i
      else if FieldName jsonInfo = name then i
      else if FieldName jsonInfo = Capitalize h name then i
      else getStructFieldIndex_match h xs name (i + 1))"

text \<open>The second loop: the reverse scan of \<open>set.Values\<close> from position \<open>i\<close> down.\<close>

function getStructFieldIndex_scan :: "SStructFieldValueV2 list \<Rightarrow> int \<Rightarrow> int \<Rightarrow> int option" where
  "getStructFieldIndex_scan values index i =
     (if i \<ge> 0 then
        (if nat i < length values then
           (if Index (values ! nat i) = index then Some i
            else getStructFieldIndex_scan values index (i - 1))
         else None)
      else Some index)"
  by pat_completeness auto
termination
  by (relation "measure (\<lambda>(values, index, i). nat (i + 1))") auto

definition getStructFieldIndex ::
  "collaborators \<Rightarrow> SStructFieldValueSetV2 \<Rightarrow> string \<Rightarrow> int option" where
  "getStructFieldIndex h fvs name =
     (let index = getStructFieldIndex_match h (Infos fvs) name 0 in
      if index < 0 then Some index
      else
        (let index = (if index \<ge> int (length (Values fvs)) then int (length (Values fvs)) - 1
                      else index)
         in getStructFieldIndex_scan (Values fvs) index index))"

definition GetValueV2 ::
  "collaborators \<Rightarrow> SStructFieldValueSetV2 \<Rightarrow> string \<Rightarrow> (reflect_Value option \<times> bool) option" where
  "GetValueV2 h fvs name =
     (case getStructFieldIndex h fvs name of
        None \<Rightarrow> None
      | Some idx \<Rightarrow>
          if idx < 0 then Some (None, False)
          else if nat idx < length (Values fvs) then Some (Some (Value (Values fvs ! nat idx)), True)
          else None)"

definition GetInterfaceV2 ::
  "collaborators \<Rightarrow> SStructFieldValueSetV2 \<Rightarrow> string \<Rightarrow> (govalue option \<times> bool) option" where
  "GetInterfaceV2 h fvs name =
     (case getStructFieldIndex h fvs name of
        None \<Rightarrow> None
      | Some idx \<Rightarrow>
          if idx < 0 then Some (None, False)
          else if nat idx < length (Values fvs) then
            (if CanInterface (Value (Values fvs ! nat idx)) then
               (case Interface (Value (Values fvs ! nat idx)) of
                  None \<Rightarrow> None
                | Some x \<Rightarrow> Some (Some x, True))
             else Some (None, False))
          else None)"

section \<open>Helpers for concrete runs\<close>

text \<open>
  Modelled from the spec: \<open>utils.CamelSplit\<close>, \<open>utils.Capitalize\<close> and
  \<open>gotypes.IsFieldExportable\<close> are not in the source file.  The spec calls them a
  field-name case-style converter from declared case to snake case (\<open>UserID\<close> gives
  \<open>user_id\<close>), a capitalization helper and an exported-identifier predicate.  Here a
  new word starts at an upper-case letter that follows a character that is not one,
  letters are lower-cased and words are joined by the separator; capitalizing raises
  the first letter; a name is exported when it starts with an upper-case letter.
  Letters are the ASCII letters.  For \<open>strings.ToLower\<close> the concrete runs take
  \<open>asciiToLower\<close>, which lower-cases the letters \<open>A\<close> to \<open>Z\<close> and keeps every
  other byte: what \<open>strings.ToLower\<close> returns on a string of ASCII characters, and the
  runs apply it to no other.  These definitions are used at concrete inputs only.
\<close>

definition isUpper :: "char \<Rightarrow> bool" where
  "isUpper c = (c \<in> set ''ABCDEFGHIJKLMNOPQRSTUVWXYZ'')"

definition asciiLower :: "char \<Rightarrow> char" where
  "asciiLower c =
     (case map_of (zip ''ABCDEFGHIJKLMNOPQRSTUVWXYZ'' ''abcdefghijklmnopqrstuvwxyz'') c of
        None \<Rightarrow> c
      | Some l \<Rightarrow> l)"

definition asciiUpper :: "char \<Rightarrow> char" where
  "asciiUpper c =
     (case map_of (zip ''abcdefghijklmnopqrstuvwxyz'' ''ABCDEFGHIJKLMNOPQRSTUVWXYZ'') c of
        None \<Rightarrow> c
      | Some u \<Rightarrow> u)"

definition asciiToLower :: "string \<Rightarrow> string" where
  "asciiToLower s = map asciiLower s"

fun specCamelSplit_from :: "bool \<Rightarrow> string \<Rightarrow> string \<Rightarrow> string" where
  "specCamelSplit_from prev [] sep = []"
| "specCamelSplit_from prev (c # cs) sep =
     (if isUpper c then
        (if prev then sep else []) @ asciiLower c # specCamelSplit_from False cs sep
      else c # specCamelSplit_from True cs sep)"

definition specCamelSplit :: "string \<Rightarrow> string \<Rightarrow> string" where
  "specCamelSplit str sep = specCamelSplit_from False str sep"

definition specCapitalize :: "string \<Rightarrow> string" where
  "specCapitalize str = (case str of [] \<Rightarrow> [] | c # cs \<Rightarrow> asciiUpper c # cs)"

definition specIsFieldExportable :: "string \<Rightarrow> bool" where
  "specIsFieldExportable name = (case name of [] \<Rightarrow> False | c # cs \<Rightarrow> isUpper c)"

definition specCollaborators :: collaborators where
  "specCollaborators =
     \<lparr>CamelSplit = specCamelSplit, Capitalize = specCapitalize,
      IsFieldExportable = specIsFieldExportable, ToLower = asciiToLower\<rparr>"

section \<open>Notions used to state the properties\<close>

text \<open>
  A value is well typed when every pointer target has the pointer's element type.
  \<open>fieldTypes\<close> gives the declared types of the fields of a struct value.
\<close>

primrec wellTyped :: "govalue \<Rightarrow> bool" where
  "wellTyped (VBasic n p) = True"
| "wellTyped (VStruct n fs) = list_all (\<lambda>p. snd p) (map (map_prod id wellTyped) fs)"
| "wellTyped (VPtr t tgt) =
     (case map_option (\<lambda>w. (TypeOf w = t \<and> wellTyped w)) tgt of None \<Rightarrow> True | Some b \<Rightarrow> b)"
| "wellTyped (VInterface n d) = (case map_option wellTyped d of None \<Rightarrow> True | Some b \<Rightarrow> b)"

definition fieldTypes :: "(StructField \<times> govalue) list \<Rightarrow> (StructField \<times> gotype) list" where
  "fieldTypes fs = map (map_prod id TypeOf) fs"

definition wellTypedFields :: "(StructField \<times> govalue) list \<Rightarrow> bool" where
  "wellTypedFields fs = list_all (\<lambda>p. wellTyped (snd p)) fs"

text \<open>
  The schema as the spec describes it, computed from the type alone (\<open>ComputeSchema\<close>
  in its section 6): exported fields in declaration order, an embedded record or
  pointer to a record replaced by its own fields, the timestamp type kept as one field,
  every other field parsed.  It is compared below with \<open>fetchStructFieldInfos\<close>, which
  reads an instance.
\<close>

fun ComputeSchema :: "collaborators \<Rightarrow> (StructField \<times> gotype) list \<Rightarrow> SStructFieldInfo list" where
  "ComputeSchema h [] = []"
| "ComputeSchema h ((sf, t) # rest) =
     (if \<not> IsFieldExportable h (StructField.Name sf) then ComputeSchema h rest
      else if \<not> Anonymous sf then ParseStructFieldJsonInfo h sf # ComputeSchema h rest
      else (case t of
              StructT n fs \<Rightarrow>
                if t \<noteq> TimeType then ComputeSchema h fs @ ComputeSchema h rest
                else ParseStructFieldJsonInfo h sf # ComputeSchema h rest
            | PtrT (StructT n fs) \<Rightarrow> ComputeSchema h fs @ ComputeSchema h rest
            | _ \<Rightarrow> ParseStructFieldJsonInfo h sf # ComputeSchema h rest))"

text \<open>
  Whether the walkers meet an embedded interface (or pointer to one) in a type: among
  the exported embedded fields, and inside the records these expand to.
\<close>

fun embedsInterface :: "collaborators \<Rightarrow> (StructField \<times> gotype) list \<Rightarrow> bool" where
  "embedsInterface h [] = False"
| "embedsInterface h ((sf, t) # rest) =
     (if IsFieldExportable h (StructField.Name sf) \<and> Anonymous sf then
        (case t of
           InterfaceT n \<Rightarrow> True
         | PtrT (InterfaceT n) \<Rightarrow> True
         | StructT n fs \<Rightarrow> (t \<noteq> TimeType \<and> embedsInterface h fs) \<or> embedsInterface h rest
         | PtrT (StructT n fs) \<Rightarrow> embedsInterface h fs \<or> embedsInterface h rest
         | _ \<Rightarrow> embedsInterface h rest)
      else embedsInterface h rest)"

text \<open>
  Whether the walkers meet, in a type, an embedded pointer that they cannot set: a
  pointer field that \<open>gotypes.IsFieldExportable\<close> accepts and Go treats as unexported
  (its \<open>PkgPath\<close> is not empty), among the embedded fields and inside the records
  these expand to.
\<close>

fun embedsReadOnlyPtr :: "collaborators \<Rightarrow> (StructField \<times> gotype) list \<Rightarrow> bool" where
  "embedsReadOnlyPtr h [] = False"
| "embedsReadOnlyPtr h ((sf, t) # rest) =
     (if IsFieldExportable h (StructField.Name sf) \<and> Anonymous sf then
        (case t of
           StructT n fs \<Rightarrow> (t \<noteq> TimeType \<and> embedsReadOnlyPtr h fs) \<or> embedsReadOnlyPtr h rest
         | PtrT (StructT n fs) \<Rightarrow>
             PkgPath sf \<noteq> [] \<or> embedsReadOnlyPtr h fs \<or> embedsReadOnlyPtr h rest
         | PtrT u \<Rightarrow> PkgPath sf \<noteq> [] \<or> embedsReadOnlyPtr h rest
         | _ \<Rightarrow> embedsReadOnlyPtr h rest)
      else embedsReadOnlyPtr h rest)"

text \<open>
  A cache is valid when each entry is what \<open>fetchStructFieldInfos\<close> returned for some
  well-typed instance of the key type, as \<open>cachefetchStructFieldInfos\<close> stores it.
\<close>

definition cacheValid :: "collaborators \<Rightarrow> cache \<Rightarrow> bool" where
  "cacheValid h c =
     (\<forall>t r. c t = Some r \<longrightarrow>
        (\<exists>a ro v v'. wellTyped v \<and> TypeOf v = t \<and> fetchStructFieldInfos h a ro v = Some (r, v')))"

text \<open>The four tests of the loop body of name resolution, in the order of the source.\<close>

definition fieldMatches :: "collaborators \<Rightarrow> SStructFieldInfo \<Rightarrow> string \<Rightarrow> bool" where
  "fieldMatches h info name =
     (fst (MarshalName h info) = name \<or>
      CamelSplit h (FieldName info) ''_'' = CamelSplit h name ''_'' \<or>
      FieldName info = name \<or>
      FieldName info = Capitalize h name)"

text \<open>
  What a walker decides for one field, before it goes on with the rest: the branches of
  the loop bodies, collected so that the proofs can split on them.
\<close>

datatype infoStep =
    IUnexported
  | IPanics
  | IEmits govalue
  | IDescends govalue govalue string "(StructField \<times> govalue) list" bool bool

definition infosStep :: "collaborators \<Rightarrow> bool \<Rightarrow> bool \<Rightarrow> StructField \<Rightarrow> govalue \<Rightarrow> infoStep" where
  "infosStep h addr ro sf fv =
     (if \<not> IsFieldExportable h (StructField.Name sf) then IUnexported
      else if \<not> Anonymous sf then IEmits fv
      else (case infosPtrElem addr (fieldRO ro sf) fv of
              None \<Rightarrow> IPanics
            | Some (fv1, e1, a1) \<Rightarrow>
                (case infosIfaceElem a1 ro (fieldRO ro sf) e1 of
                   (Some (VStruct n fs), a2, r2) \<Rightarrow>
                     if TypeOf fv \<noteq> TimeType then IDescends fv1 e1 n fs a2 r2 else IEmits fv1
                 | _ \<Rightarrow> IEmits fv1)))"

datatype fieldStep =
    Unexported
  | Panics
  | NilSkipped
  | Emits govalue reflect_Value
  | Descends govalue string "(StructField \<times> govalue) list" bool bool

definition valueStep ::
  "collaborators \<Rightarrow> bool \<Rightarrow> bool \<Rightarrow> bool \<Rightarrow> StructField \<Rightarrow> govalue \<Rightarrow> fieldStep" where
  "valueStep h addr ro allocatePtr sf fv =
     (if \<not> IsFieldExportable h (StructField.Name sf) then Unexported
      else if \<not> Anonymous sf then Emits fv \<lparr>data = fv, flagRO = fieldRO ro sf\<rparr>
      else (case valueElem addr ro (fieldRO ro sf) allocatePtr fv of
              Panic \<Rightarrow> Panics
            | NilSkip \<Rightarrow> NilSkipped
            | Elem fv1 e a r \<Rightarrow>
                (case e of
                   VStruct n fs \<Rightarrow>
                     if TypeOf fv \<noteq> TimeType then Descends fv1 n fs a r
                     else Emits fv1 \<lparr>data = e, flagRO = fieldRO ro sf\<rparr>
                 | _ \<Rightarrow> Emits fv1 \<lparr>data = e, flagRO = fieldRO ro sf\<rparr>)))"

section \<open>Example records\<close>

text \<open>
  \<^verbatim>\<open>type A struct { X int; Y int }\<close>,
  \<^verbatim>\<open>type T struct { *A; Z int }\<close>,
  \<^verbatim>\<open>type E struct {}\<close>,
  \<^verbatim>\<open>type W struct { *E; Z int }\<close>,
  \<^verbatim>\<open>type U struct { I; Z int }\<close> with an interface type \<open>I\<close>,
  \<^verbatim>\<open>type V struct { *a; Z int }\<close> with \<^verbatim>\<open>type a struct { X int; Y int }\<close>, and
  \<^verbatim>\<open>type Account struct { UserID int; Secret string `json:"-"` }\<close>,
  all of a package \<open>main\<close>.
\<close>

definition plainField :: "string \<Rightarrow> StructField" where
  "plainField name = \<lparr>StructField.Name = name, PkgPath = [], Anonymous = False, Tag = []\<rparr>"

definition embeddedField :: "string \<Rightarrow> StructField" where
  "embeddedField name = \<lparr>StructField.Name = name, PkgPath = [], Anonymous = True, Tag = []\<rparr>"

definition typeA :: gotype where
  "typeA = StructT ''A'' [(plainField ''X'', BasicT ''int''), (plainField ''Y'', BasicT ''int'')]"

definition valueA :: govalue where
  "valueA = VStruct ''A'' [(plainField ''X'', VBasic ''int'' ''1''), (plainField ''Y'', VBasic ''int'' ''2'')]"

definition valueT :: "govalue option \<Rightarrow> govalue" where
  "valueT a = VStruct ''T'' [(embeddedField ''A'', VPtr typeA a), (plainField ''Z'', VBasic ''int'' ''7'')]"

definition valueW :: "govalue option \<Rightarrow> govalue" where
  "valueW e = VStruct ''W'' [(embeddedField ''E'', VPtr (StructT ''E'' []) e), (plainField ''Z'', VBasic ''int'' ''7'')]"

definition valueU :: "govalue option \<Rightarrow> govalue" where
  "valueU i = VStruct ''U'' [(embeddedField ''I'', VInterface ''I'' i), (plainField ''Z'', VBasic ''int'' ''7'')]"

text \<open>
  \<^verbatim>\<open>type B struct { N int }\<close>, \<^verbatim>\<open>type C struct { *B; X int }\<close> and
  \<^verbatim>\<open>type D struct { *C; Z int }\<close>.
\<close>

definition typeB :: gotype where
  "typeB = StructT ''B'' [(plainField ''N'', BasicT ''int'')]"

definition typeC :: gotype where
  "typeC = StructT ''C'' [(embeddedField ''B'', PtrT typeB), (plainField ''X'', BasicT ''int'')]"

definition valueC :: "govalue option \<Rightarrow> govalue" where
  "valueC b = VStruct ''C'' [(embeddedField ''B'', VPtr typeB b), (plainField ''X'', VBasic ''int'' [])]"

definition valueD :: "govalue option \<Rightarrow> govalue" where
  "valueD c = VStruct ''D'' [(embeddedField ''C'', VPtr typeC c), (plainField ''Z'', VBasic ''int'' ''7'')]"

definition valueV :: "govalue option \<Rightarrow> govalue" where
  "valueV a = VStruct ''V''
     [(\<lparr>StructField.Name = ''a'', PkgPath = ''main'', Anonymous = True, Tag = []\<rparr>,
       VPtr (StructT ''a'' [(plainField ''X'', BasicT ''int''), (plainField ''Y'', BasicT ''int'')]) a),
      (plainField ''Z'', VBasic ''int'' ''7'')]"

text \<open>The fields \<^verbatim>\<open>Foo int `json:"bar"`\<close> and \<^verbatim>\<open>Baz int `json:"Foo"`\<close>.\<close>

definition fooField :: StructField where
  "fooField =
     \<lparr>StructField.Name = ''Foo'', PkgPath = [], Anonymous = False, Tag = [(''json'', ''bar'')]\<rparr>"

definition bazField :: StructField where
  "bazField =
     \<lparr>StructField.Name = ''Baz'', PkgPath = [], Anonymous = False, Tag = [(''json'', ''Foo'')]\<rparr>"

definition secretField :: StructField where
  "secretField =
     \<lparr>StructField.Name = ''Secret'', PkgPath = [], Anonymous = False, Tag = [(''json'', ''-'')]\<rparr>"

definition valueAccount :: govalue where
  "valueAccount = VStruct ''Account''
     [(plainField ''UserID'', VBasic ''int'' ''42''), (secretField, VBasic ''string'' ''s'')]"

text \<open>The cache of a fresh process, and the cache once the schema of a type is stored.\<close>

definition emptyCache :: cache where
  "emptyCache = Map.empty"

definition cacheOf :: "gotype \<Rightarrow> SStructFieldInfo list \<Rightarrow> cache" where
  "cacheOf t infos = emptyCache(t \<mapsto> infos)"

section \<open>Properties of the tag parser\<close>

lemma strings_Split_nonempty: "strings_Split s sep \<noteq> []"
  by (induction s) (auto split: list.splits)

lemma strings_Split_Cons:
  "strings_Split (c # cs) sep =
     (if c = sep then [] # strings_Split cs sep
      else (c # hd (strings_Split cs sep)) # tl (strings_Split cs sep))"
  using strings_Split_nonempty [of cs sep] by (simp split: list.splits)

lemma initialInfo_simps [simp]:
  "Ignore (initialInfo sf) = False"
  "OmitEmpty (initialInfo sf) = True"
  "OmitZero (initialInfo sf) = False"
  "OmitFalse (initialInfo sf) = False"
  "Name (initialInfo sf) = []"
  "FieldName (initialInfo sf) = StructField.Name sf"
  "Tags (initialInfo sf) = Tag sf"
  by (simp_all add: initialInfo_def)

lemma applyOption_frame [simp]:
  "Tags (applyOption h info k) = Tags info"
  "Name (applyOption h info k) = Name info"
  "Ignore (applyOption h info k) = Ignore info"
  "FieldName (applyOption h info k) = FieldName info"
  by (simp_all add: applyOption_def Let_def)

lemma applyOptions_frame [simp]:
  "Tags (applyOptions h info ks) = Tags info"
  "Name (applyOptions h info ks) = Name info"
  "Ignore (applyOptions h info ks) = Ignore info"
  "FieldName (applyOptions h info ks) = FieldName info"
  by (induction ks arbitrary: info) simp_all

lemma applyOption_OmitEmpty:
  "OmitEmpty (applyOption h info k) =
     (if ToLower h k = ''omitempty'' then True
      else if ToLower h k = ''allowempty'' then False
      else OmitEmpty info)"
  by (simp add: applyOption_def Let_def)

lemma applyOptions_OmitEmpty:
  "OmitEmpty (applyOptions h info ks) =
     (case filter (\<lambda>k. ToLower h k \<in> {''omitempty'', ''allowempty''}) ks of
        [] \<Rightarrow> OmitEmpty info
      | k # ks' \<Rightarrow> ToLower h (last (k # ks')) = ''omitempty'')"
proof (induction ks arbitrary: info)
  case Nil
  then show ?case by simp
next
  case (Cons k ks)
  show ?case
    by (simp only: applyOptions.simps Cons.IH applyOption_OmitEmpty)
       (auto split: list.splits)
qed

lemma applyOption_OmitZero:
  "OmitZero (applyOption h info k) =
     (if ToLower h k = ''omitzero'' then True
      else if ToLower h k = ''allowzero'' then False
      else OmitZero info)"
  by (simp add: applyOption_def Let_def)

lemma applyOptions_OmitZero:
  "OmitZero (applyOptions h info ks) =
     (case filter (\<lambda>k. ToLower h k \<in> {''omitzero'', ''allowzero''}) ks of
        [] \<Rightarrow> OmitZero info
      | k # ks' \<Rightarrow> ToLower h (last (k # ks')) = ''omitzero'')"
proof (induction ks arbitrary: info)
  case Nil
  then show ?case by simp
next
  case (Cons k ks)
  show ?case
    by (simp only: applyOptions.simps Cons.IH applyOption_OmitZero)
       (auto split: list.splits)
qed

lemma applyOption_OmitFalse:
  "OmitFalse (applyOption h info k) =
     (if ToLower h k = ''omitfalse'' then True
      else if ToLower h k = ''allowfalse'' then False
      else OmitFalse info)"
  by (simp add: applyOption_def Let_def)

lemma applyOptions_OmitFalse:
  "OmitFalse (applyOptions h info ks) =
     (case filter (\<lambda>k. ToLower h k \<in> {''omitfalse'', ''allowfalse''}) ks of
        [] \<Rightarrow> OmitFalse info
      | k # ks' \<Rightarrow> ToLower h (last (k # ks')) = ''omitfalse'')"
proof (induction ks arbitrary: info)
  case Nil
  then show ?case by simp
next
  case (Cons k ks)
  show ?case
    by (simp only: applyOptions.simps Cons.IH applyOption_OmitFalse)
       (auto split: list.splits)
qed

text \<open>The parser in one piece, for a field with a \<open>json\<close> key and for one without.\<close>

lemma ParseStructFieldJsonInfo_json:
  assumes "map_of (Tag sf) ''json'' = Some val" "strings_Split val (CHR '','') = t # ts"
  shows "ParseStructFieldJsonInfo h sf =
           (let j = applyOptions h
                      (if t = ''-'' \<and> ts = [] then (initialInfo sf)\<lparr>Ignore := True\<rparr>
                       else (initialInfo sf)\<lparr>Name := t\<rparr>) ts
            in case map_of (Tag sf) ''name'' of None \<Rightarrow> j | Some v \<Rightarrow> j\<lparr>Name := v\<rparr>)"
  using assms
  by (cases ts)
     (simp_all add: ParseStructFieldJsonInfo_def Let_def
        del: applyOptions.simps(2) split: option.splits)

lemma ParseStructFieldJsonInfo_nojson:
  assumes "map_of (Tag sf) ''json'' = None"
  shows "ParseStructFieldJsonInfo h sf =
           (case map_of (Tag sf) ''name'' of
              None \<Rightarrow> initialInfo sf
            | Some v \<Rightarrow> (initialInfo sf)\<lparr>Name := v\<rparr>)"
  using assms by (simp add: ParseStructFieldJsonInfo_def Let_def split: option.splits)

lemma case_filter_last:
  "P k \<Longrightarrow> (case filter P (ts @ [k]) of [] \<Rightarrow> d | x # xs \<Rightarrow> f (last (x # xs))) = f k"
  by (cases "filter P ts") simp_all

lemma ParseStructFieldJsonInfo_omit:
  "OmitEmpty (ParseStructFieldJsonInfo h sf) =
     (case map_of (Tag sf) ''json'' of
        None \<Rightarrow> True
      | Some val \<Rightarrow>
          (case filter (\<lambda>k. ToLower h k \<in> {''omitempty'', ''allowempty''})
                  (tl (strings_Split val (CHR '',''))) of
             [] \<Rightarrow> True
           | k # ks \<Rightarrow> ToLower h (last (k # ks)) = ''omitempty'')) \<and>
   OmitZero (ParseStructFieldJsonInfo h sf) =
     (case map_of (Tag sf) ''json'' of
        None \<Rightarrow> False
      | Some val \<Rightarrow>
          (case filter (\<lambda>k. ToLower h k \<in> {''omitzero'', ''allowzero''})
                  (tl (strings_Split val (CHR '',''))) of
             [] \<Rightarrow> False
           | k # ks \<Rightarrow> ToLower h (last (k # ks)) = ''omitzero'')) \<and>
   OmitFalse (ParseStructFieldJsonInfo h sf) =
     (case map_of (Tag sf) ''json'' of
        None \<Rightarrow> False
      | Some val \<Rightarrow>
          (case filter (\<lambda>k. ToLower h k \<in> {''omitfalse'', ''allowfalse''})
                  (tl (strings_Split val (CHR '',''))) of
             [] \<Rightarrow> False
           | k # ks \<Rightarrow> ToLower h (last (k # ks)) = ''omitfalse''))"
proof (cases "map_of (Tag sf) ''json''")
  case None
  then show ?thesis
    by (simp add: ParseStructFieldJsonInfo_nojson split: option.splits)
next
  case (Some val)
  obtain t ts where sp: "strings_Split val (CHR '','') = t # ts"
    using strings_Split_nonempty by (cases "strings_Split val (CHR '','')") auto
  have e: "OmitEmpty (ParseStructFieldJsonInfo h sf) =
             (case filter (\<lambda>k. ToLower h k \<in> {''omitempty'', ''allowempty''}) ts of
                [] \<Rightarrow> True
              | k # ks \<Rightarrow> ToLower h (last (k # ks)) = ''omitempty'')"
    by (simp add: ParseStructFieldJsonInfo_json [OF Some sp] Let_def
          applyOptions_OmitEmpty split: option.splits list.splits)
  have z: "OmitZero (ParseStructFieldJsonInfo h sf) =
             (case filter (\<lambda>k. ToLower h k \<in> {''omitzero'', ''allowzero''}) ts of
                [] \<Rightarrow> False
              | k # ks \<Rightarrow> ToLower h (last (k # ks)) = ''omitzero'')"
    by (simp add: ParseStructFieldJsonInfo_json [OF Some sp] Let_def
          applyOptions_OmitZero split: option.splits list.splits)
  have f: "OmitFalse (ParseStructFieldJsonInfo h sf) =
             (case filter (\<lambda>k. ToLower h k \<in> {''omitfalse'', ''allowfalse''}) ts of
                [] \<Rightarrow> False
              | k # ks \<Rightarrow> ToLower h (last (k # ks)) = ''omitfalse'')"
    by (simp add: ParseStructFieldJsonInfo_json [OF Some sp] Let_def
          applyOptions_OmitFalse split: option.splits list.splits)
  show ?thesis
    by (simp only: e z f Some sp option.case list.sel)
qed

text \<open>
  Claim C6.  \<open>OmitEmpty\<close> is true unless the \<open>json\<close> tag says otherwise: a field
  with no \<open>json\<close> key has it set, and so has one whose tokens after the first name
  neither \<open>omitempty\<close> nor \<open>allowempty\<close>.  Otherwise the last token that is one of
  the two decides, whatever comes before it: \<open>allowempty\<close> clears the flag,
  \<open>omitempty\<close> sets it.  The pairs \<open>omitzero\<close>/\<open>allowzero\<close> and
  \<open>omitfalse\<close>/\<open>allowfalse\<close> decide \<open>OmitZero\<close> and \<open>OmitFalse\<close> in the same
  way, from the default false.  A token is compared after \<open>strings.ToLower\<close>, and
  this holds whatever \<open>strings.ToLower\<close> returns.  The parser is a total function,
  so no tag is an error.
\<close>

theorem ParseStructFieldJsonInfo_flags:
  "OmitEmpty (ParseStructFieldJsonInfo h sf) =
     (case map_of (Tag sf) ''json'' of
        None \<Rightarrow> True
      | Some val \<Rightarrow>
          (case filter (\<lambda>k. ToLower h k \<in> {''omitempty'', ''allowempty''})
                  (tl (strings_Split val (CHR '',''))) of
             [] \<Rightarrow> True
           | k # ks \<Rightarrow> ToLower h (last (k # ks)) = ''omitempty'')) \<and>
   OmitZero (ParseStructFieldJsonInfo h sf) =
     (case map_of (Tag sf) ''json'' of
        None \<Rightarrow> False
      | Some val \<Rightarrow>
          (case filter (\<lambda>k. ToLower h k \<in> {''omitzero'', ''allowzero''})
                  (tl (strings_Split val (CHR '',''))) of
             [] \<Rightarrow> False
           | k # ks \<Rightarrow> ToLower h (last (k # ks)) = ''omitzero'')) \<and>
   OmitFalse (ParseStructFieldJsonInfo h sf) =
     (case map_of (Tag sf) ''json'' of
        None \<Rightarrow> False
      | Some val \<Rightarrow>
          (case filter (\<lambda>k. ToLower h k \<in> {''omitfalse'', ''allowfalse''})
                  (tl (strings_Split val (CHR '',''))) of
             [] \<Rightarrow> False
           | k # ks \<Rightarrow> ToLower h (last (k # ks)) = ''omitfalse'')) \<and>
   (map_of (Tag sf) ''json'' = Some val \<and> strings_Split val (CHR '','') = t # ts @ [k] \<longrightarrow>
      (ToLower h k = ''allowempty'' \<longrightarrow> \<not> OmitEmpty (ParseStructFieldJsonInfo h sf)) \<and>
      (ToLower h k = ''omitempty'' \<longrightarrow> OmitEmpty (ParseStructFieldJsonInfo h sf)))"
proof -
  have E: "OmitEmpty (ParseStructFieldJsonInfo h sf) = (ToLower h k = ''omitempty'')"
    if J: "map_of (Tag sf) ''json'' = Some val"
      and S: "strings_Split val (CHR '','') = t # ts @ [k]"
      and K: "ToLower h k \<in> {''omitempty'', ''allowempty''}"
  proof -
    have "OmitEmpty (ParseStructFieldJsonInfo h sf) =
            (case filter (\<lambda>k. ToLower h k \<in> {''omitempty'', ''allowempty''}) (ts @ [k]) of
               [] \<Rightarrow> True
             | x # xs \<Rightarrow> ToLower h (last (x # xs)) = ''omitempty'')"
      using ParseStructFieldJsonInfo_omit [of h sf] J S by (simp del: filter_append)
    also have "\<dots> = (ToLower h k = ''omitempty'')"
      using K
      by (rule case_filter_last
            [where P = "\<lambda>k. ToLower h k \<in> {''omitempty'', ''allowempty''}"
               and f = "\<lambda>x. ToLower h x = ''omitempty''"])
    finally show ?thesis .
  qed
  have L: "\<not> OmitEmpty (ParseStructFieldJsonInfo h sf)"
    if "map_of (Tag sf) ''json'' = Some val" "strings_Split val (CHR '','') = t # ts @ [k]"
       "ToLower h k = ''allowempty''"
    using E that by simp
  have M: "OmitEmpty (ParseStructFieldJsonInfo h sf)"
    if "map_of (Tag sf) ''json'' = Some val" "strings_Split val (CHR '','') = t # ts @ [k]"
       "ToLower h k = ''omitempty''"
    using E that by simp
  show ?thesis using ParseStructFieldJsonInfo_omit [of h sf] L M by blast
qed

theorem ParseStructFieldJsonInfo_flags_witness:
  "OmitEmpty (ParseStructFieldJsonInfo specCollaborators \<lparr>StructField.Name = ''A'', PkgPath = [], Anonymous = False, Tag = []\<rparr>) \<and>
   \<not> OmitEmpty (ParseStructFieldJsonInfo specCollaborators
        \<lparr>StructField.Name = ''A'', PkgPath = [], Anonymous = False, Tag = [(''json'', ''a,allowempty'')]\<rparr>) \<and>
   OmitEmpty (ParseStructFieldJsonInfo specCollaborators
        \<lparr>StructField.Name = ''A'', PkgPath = [], Anonymous = False, Tag = [(''json'', ''a,allowempty,OmitEmpty'')]\<rparr>) \<and>
   \<not> OmitEmpty (ParseStructFieldJsonInfo specCollaborators
        \<lparr>StructField.Name = ''A'', PkgPath = [], Anonymous = False,
         Tag = [(''json'', ''a,omitempty,omitzero,allowempty'')]\<rparr>) \<and>
   OmitZero (ParseStructFieldJsonInfo specCollaborators
        \<lparr>StructField.Name = ''A'', PkgPath = [], Anonymous = False,
         Tag = [(''json'', ''a,omitempty,omitzero,allowempty'')]\<rparr>)"
  using
    ParseStructFieldJsonInfo_flags
      [of specCollaborators "\<lparr>StructField.Name = ''A'', PkgPath = [], Anonymous = False, Tag = []\<rparr>"]
    ParseStructFieldJsonInfo_flags
      [of specCollaborators
          "\<lparr>StructField.Name = ''A'', PkgPath = [], Anonymous = False, Tag = [(''json'', ''a,allowempty'')]\<rparr>"]
    ParseStructFieldJsonInfo_flags
      [of specCollaborators
          "\<lparr>StructField.Name = ''A'', PkgPath = [], Anonymous = False,
            Tag = [(''json'', ''a,allowempty,OmitEmpty'')]\<rparr>"]
    ParseStructFieldJsonInfo_flags
      [of specCollaborators
          "\<lparr>StructField.Name = ''A'', PkgPath = [], Anonymous = False,
            Tag = [(''json'', ''a,omitempty,omitzero,allowempty'')]\<rparr>"]
  by (simp add: specCollaborators_def asciiToLower_def asciiLower_def)

section \<open>Properties of \<open>MarshalName\<close>\<close>

lemma MarshalName_snd_idem:
  "MarshalName h (snd (MarshalName h info)) = MarshalName h info"
  by (simp add: MarshalName_def Let_def)

lemma MarshalName_iterate:
  "((snd \<circ> MarshalName h) ^^ Suc n) info = snd (MarshalName h info)"
  by (induction n) (simp_all add: MarshalName_snd_idem)

text \<open>
  Claim C7.  \<open>MarshalName\<close> returns a non-empty \<open>Name\<close> as it is and leaves the
  policy alone; otherwise it returns \<open>CamelSplit(FieldName, "_")\<close> and stores it in
  \<open>Name\<close>.  The policy it leaves holds the name it returned, and after any number of
  further calls on that policy the next call returns the same name.  With a
  \<open>CamelSplit\<close> that turns \<open>UserID\<close> into \<open>user_id\<close>, as the spec says of it, the
  field \<open>UserID\<close> without a name has the external name \<open>user_id\<close>.
\<close>

theorem MarshalName_lazy_memoized:
  "(Name info \<noteq> [] \<longrightarrow> MarshalName h info = (Name info, info)) \<and>
   (Name info = [] \<longrightarrow>
      MarshalName h info =
        (CamelSplit h (FieldName info) ''_'',
         info\<lparr>Name := CamelSplit h (FieldName info) ''_''\<rparr>)) \<and>
   Name (snd (MarshalName h info)) = fst (MarshalName h info) \<and>
   (\<forall>n. fst (MarshalName h (((snd \<circ> MarshalName h) ^^ n) info)) = fst (MarshalName h info)) \<and>
   (CamelSplit h ''UserID'' ''_'' = ''user_id'' \<and> Name info = [] \<and> FieldName info = ''UserID'' \<longrightarrow>
      fst (MarshalName h info) = ''user_id'')"
proof -
  have "fst (MarshalName h (((snd \<circ> MarshalName h) ^^ n) info)) = fst (MarshalName h info)" for n
  proof (cases n)
    case 0
    then show ?thesis by simp
  next
    case (Suc m)
    then show ?thesis
      by (simp only: MarshalName_iterate MarshalName_snd_idem)
  qed
  then show ?thesis
    by (simp add: MarshalName_def Let_def)
qed

theorem MarshalName_lazy_memoized_witness:
  "MarshalName specCollaborators
     (ParseStructFieldJsonInfo specCollaborators \<lparr>StructField.Name = ''UserID'', PkgPath = [], Anonymous = False, Tag = []\<rparr>) =
     (''user_id'',
      (ParseStructFieldJsonInfo specCollaborators \<lparr>StructField.Name = ''UserID'', PkgPath = [], Anonymous = False, Tag = []\<rparr>)
        \<lparr>Name := ''user_id''\<rparr>) \<and>
   MarshalName specCollaborators
     (ParseStructFieldJsonInfo specCollaborators
        \<lparr>StructField.Name = ''UserID'', PkgPath = [], Anonymous = False, Tag = [(''json'', ''uid'')]\<rparr>) =
     (''uid'',
      ParseStructFieldJsonInfo specCollaborators
        \<lparr>StructField.Name = ''UserID'', PkgPath = [], Anonymous = False, Tag = [(''json'', ''uid'')]\<rparr>) \<and>
   fst (MarshalName specCollaborators
          (((snd \<circ> MarshalName specCollaborators) ^^ 3)
             (ParseStructFieldJsonInfo specCollaborators
                \<lparr>StructField.Name = ''UserID'', PkgPath = [], Anonymous = False, Tag = []\<rparr>))) = ''user_id''"
proof -
  have cs: "CamelSplit specCollaborators ''UserID'' ''_'' = ''user_id''"
    by (simp add: specCollaborators_def specCamelSplit_def isUpper_def asciiLower_def)
  have untagged:
    "Name (ParseStructFieldJsonInfo specCollaborators \<lparr>StructField.Name = ''UserID'', PkgPath = [], Anonymous = False, Tag = []\<rparr>) = []"
    "FieldName (ParseStructFieldJsonInfo specCollaborators \<lparr>StructField.Name = ''UserID'', PkgPath = [], Anonymous = False, Tag = []\<rparr>)
       = ''UserID''"
    by (simp_all add: ParseStructFieldJsonInfo_nojson)
  have tagged:
    "Name (ParseStructFieldJsonInfo specCollaborators
        \<lparr>StructField.Name = ''UserID'', PkgPath = [], Anonymous = False, Tag = [(''json'', ''uid'')]\<rparr>) = ''uid''"
    by (simp add: ParseStructFieldJsonInfo_def Let_def)
  show ?thesis
    using
      MarshalName_lazy_memoized
        [of "ParseStructFieldJsonInfo specCollaborators \<lparr>StructField.Name = ''UserID'', PkgPath = [], Anonymous = False, Tag = []\<rparr>"
            specCollaborators]
      MarshalName_lazy_memoized
        [of "ParseStructFieldJsonInfo specCollaborators
               \<lparr>StructField.Name = ''UserID'', PkgPath = [], Anonymous = False, Tag = [(''json'', ''uid'')]\<rparr>"
            specCollaborators]
    by (simp only: cs untagged tagged) simp
qed

section \<open>Lemmas about the walkers\<close>

lemma wellTyped_VStruct [simp]: "wellTyped (VStruct n fs) = wellTypedFields fs"
  by (simp add: wellTypedFields_def list_all_iff)

lemma TypeOf_VStruct [simp]: "TypeOf (VStruct n fs) = StructT n (fieldTypes fs)"
  by (simp add: fieldTypes_def)

declare wellTyped.simps(2) [simp del] TypeOf.simps(2) [simp del]

lemma wellTyped_VPtr [simp]:
  "wellTyped (VPtr t None) = True"
  "wellTyped (VPtr t (Some w)) = (TypeOf w = t \<and> wellTyped w)"
  "wellTyped (VInterface n None) = True"
  "wellTyped (VInterface n (Some w)) = wellTyped w"
  by simp_all

declare wellTyped.simps(3,4) [simp del]

lemma fieldTypes_simps [simp]:
  "fieldTypes [] = []"
  "fieldTypes ((sf, fv) # rest) = (sf, TypeOf fv) # fieldTypes rest"
  by (simp_all add: fieldTypes_def)

lemma wellTypedFields_simps [simp]:
  "wellTypedFields [] = True"
  "wellTypedFields ((sf, fv) # rest) = (wellTyped fv \<and> wellTypedFields rest)"
  by (simp_all add: wellTypedFields_def)

lemma TypeOf_Zero [simp]: "TypeOf (Zero t) = t"
proof (induction t)
  case (StructT n fs)
  have "fieldTypes (map (map_prod id Zero) fs) = fs"
    unfolding fieldTypes_def using StructT
    by (auto simp: list.map_comp comp_def prod.map_comp intro!: map_idI)
  then show ?case by simp
qed simp_all

lemma wellTyped_Zero [simp]: "wellTyped (Zero t)"
proof (induction t)
  case (StructT n fs)
  have "wellTypedFields (map (map_prod id Zero) fs)"
    unfolding wellTypedFields_def using StructT
    by (auto simp: list_all_iff)
  then show ?case by simp
qed simp_all

lemma TimeType_neq [simp]:
  "PtrT t \<noteq> TimeType" "InterfaceT n \<noteq> TimeType" "BasicT n \<noteq> TimeType"
  "TimeType \<noteq> PtrT t" "TimeType \<noteq> InterfaceT n" "TimeType \<noteq> BasicT n"
  by (simp_all add: TimeType_def)

lemma ComputeSchema_Cons:
  "ComputeSchema h ((sf, t) # rest) = ComputeSchema h [(sf, t)] @ ComputeSchema h rest"
  by (simp split: gotype.splits)

lemma embedsInterface_Cons:
  "embedsInterface h ((sf, t) # rest) = (embedsInterface h [(sf, t)] \<or> embedsInterface h rest)"
  by (simp split: gotype.splits)

lemma embedsReadOnlyPtr_Cons:
  "embedsReadOnlyPtr h ((sf, t) # rest) =
     (embedsReadOnlyPtr h [(sf, t)] \<or> embedsReadOnlyPtr h rest)"
  by (simp split: gotype.splits)

lemma infos_loop_Cons:
  "fetchStructFieldInfos_loop h addr ro ((sf, fv) # rest) =
     (case infosStep h addr ro sf fv of
        IUnexported \<Rightarrow>
          (case fetchStructFieldInfos_loop h addr ro rest of
             None \<Rightarrow> None
           | Some (ret, rest') \<Rightarrow> Some (ret, (sf, fv) # rest'))
      | IPanics \<Rightarrow> None
      | IEmits fv1 \<Rightarrow>
          (case fetchStructFieldInfos_loop h addr ro rest of
             None \<Rightarrow> None
           | Some (ret, rest') \<Rightarrow> Some (ParseStructFieldJsonInfo h sf # ret, (sf, fv1) # rest'))
      | IDescends fv1 e1 n fs a2 r2 \<Rightarrow>
          (case fetchStructFieldInfos_loop h a2 r2 fs of
             None \<Rightarrow> None
           | Some (subInfo, fs') \<Rightarrow>
               (case fetchStructFieldInfos_loop h addr ro rest of
                  None \<Rightarrow> None
                | Some (ret, rest') \<Rightarrow>
                    Some (subInfo @ ret, (sf, infosSetElem fv1 e1 (VStruct n fs')) # rest'))))"
  by (auto simp: infosStep_def simp del: TypeOf_VStruct split: option.splits govalue.splits prod.splits)

lemma infosStep_weight:
  "infosStep h addr ro sf fv = IDescends fv1 e1 n fs a r \<Longrightarrow>
     fieldsWeight fs < fieldsWeight ((sf, fv) # rest)"
  by (auto simp: infosStep_def split: if_splits option.splits govalue.splits prod.splits
           dest!: infosPtrElem_weight infosIfaceElem_weight)


lemma ComputeSchema_time:
  "IsFieldExportable h (StructField.Name sf) \<Longrightarrow> Anonymous sf \<Longrightarrow>
     ComputeSchema h ((sf, TimeType) # rest) = ParseStructFieldJsonInfo h sf # ComputeSchema h rest"
  by (simp add: TimeType_def [symmetric]) (simp add: TimeType_def)

lemma embedsInterface_time:
  "IsFieldExportable h (StructField.Name sf) \<Longrightarrow> Anonymous sf \<Longrightarrow>
     embedsInterface h ((sf, TimeType) # rest) = embedsInterface h rest"
  by (simp add: TimeType_def [symmetric]) (simp add: TimeType_def)

lemma embedsReadOnlyPtr_time:
  "IsFieldExportable h (StructField.Name sf) \<Longrightarrow> Anonymous sf \<Longrightarrow>
     embedsReadOnlyPtr h ((sf, TimeType) # rest) = embedsReadOnlyPtr h rest"
  by (simp add: TimeType_def [symmetric]) (simp add: TimeType_def)

lemma infosPtrElem_VPtr:
  assumes "wellTyped (VPtr t tgt)"
  shows "(infosPtrElem addr fro (VPtr t tgt) = None \<and> (\<not> addr \<or> fro) \<and> tgt = None) \<or>
         (\<exists>e1. infosPtrElem addr fro (VPtr t tgt) = Some (VPtr t (Some e1), e1, True) \<and>
               TypeOf e1 = t \<and> wellTyped e1)"
  using assms by (cases tgt) (auto simp: infosPtrElem_def)

lemma embedsReadOnlyPtr_PtrT:
  "IsFieldExportable h (StructField.Name sf) \<Longrightarrow> Anonymous sf \<Longrightarrow> PkgPath sf \<noteq> [] \<Longrightarrow>
     embedsReadOnlyPtr h [(sf, PtrT t)]"
  by (simp split: gotype.splits)

lemma infosStep_typed:
  assumes "wellTyped fv" "\<not> embedsInterface h [(sf, TypeOf fv)]"
  shows "case infosStep h addr ro sf fv of
           IUnexported \<Rightarrow> ComputeSchema h [(sf, TypeOf fv)] = []
         | IPanics \<Rightarrow> \<not> addr \<or> ro \<or> embedsReadOnlyPtr h [(sf, TypeOf fv)]
         | IEmits fv1 \<Rightarrow>
             ComputeSchema h [(sf, TypeOf fv)] = [ParseStructFieldJsonInfo h sf] \<and>
             TypeOf fv1 = TypeOf fv \<and> wellTyped fv1
         | IDescends fv1 e1 n fs a2 r2 \<Rightarrow>
             ComputeSchema h [(sf, TypeOf fv)] = ComputeSchema h (fieldTypes fs) \<and>
             wellTypedFields fs \<and> \<not> embedsInterface h (fieldTypes fs) \<and> (addr \<longrightarrow> a2) \<and>
             r2 = ro \<and>
             (embedsReadOnlyPtr h (fieldTypes fs) \<longrightarrow> embedsReadOnlyPtr h [(sf, TypeOf fv)]) \<and>
             (\<forall>fs'. fieldTypes fs' = fieldTypes fs \<longrightarrow> wellTypedFields fs' \<longrightarrow>
                TypeOf (infosSetElem fv1 e1 (VStruct n fs')) = TypeOf fv \<and>
                wellTyped (infosSetElem fv1 e1 (VStruct n fs')))"
proof (cases "IsFieldExportable h (StructField.Name sf) \<and> Anonymous sf")
  case False
  then show ?thesis using assms by (auto simp: infosStep_def)
next
  case True
  then have ex: "IsFieldExportable h (StructField.Name sf)" and an: "Anonymous sf" by simp_all
  show ?thesis
  proof (cases fv)
    case (VBasic n p)
    then show ?thesis using True assms
      by (simp add: infosStep_def infosPtrElem_def infosIfaceElem_def)
  next
    case (VStruct n fs)
    show ?thesis
    proof (cases "TypeOf fv = TimeType")
      case tt: True
      have "infosStep h addr ro sf fv = IEmits fv"
        using ex an tt VStruct
        by (simp add: infosStep_def infosPtrElem_def infosIfaceElem_def del: TypeOf_VStruct)
      moreover have "ComputeSchema h [(sf, TypeOf fv)] = [ParseStructFieldJsonInfo h sf]"
        by (simp only: tt ComputeSchema_time [OF ex an]) simp
      ultimately show ?thesis using assms(1) by simp
    next
      case nt: False
      have "infosStep h addr ro sf fv = IDescends fv fv n fs addr ro"
        using ex an nt VStruct
        by (simp add: infosStep_def infosPtrElem_def infosIfaceElem_def del: TypeOf_VStruct)
      then show ?thesis using assms ex an nt VStruct
        by (auto simp: setElem_def infosSetElem_def)
    qed
  next
    case (VInterface n d)
    then show ?thesis using True assms by simp
  next
    case (VPtr t tgt)
    from infosPtrElem_VPtr [of t tgt addr "fieldRO ro sf"] assms(1) VPtr
    consider "infosPtrElem addr (fieldRO ro sf) fv = None" "\<not> addr \<or> fieldRO ro sf"
      | e1 where "infosPtrElem addr (fieldRO ro sf) fv = Some (VPtr t (Some e1), e1, True)"
          "TypeOf e1 = t" "wellTyped e1"
      by auto
    then show ?thesis
    proof cases
      case 1
      then show ?thesis using True VPtr embedsReadOnlyPtr_PtrT [OF ex an, of t]
        by (auto simp: infosStep_def fieldRO_def)
    next
      case 2
      then show ?thesis using True assms VPtr
        by (cases e1) (auto simp: infosStep_def infosIfaceElem_def setElem_def infosSetElem_def)
    qed
  qed
qed


declare fetchStructFieldInfos_loop.simps(2) [simp del]
declare ComputeSchema.simps(2) [simp del] embedsInterface.simps(2) [simp del]
  embedsReadOnlyPtr.simps(2) [simp del]

lemma infos_typed_Some:
  assumes "wellTypedFields fs" "\<not> embedsInterface h (fieldTypes fs)"
    and "fetchStructFieldInfos_loop h addr ro fs = Some (ret, fs')"
  shows "ret = ComputeSchema h (fieldTypes fs) \<and> fieldTypes fs' = fieldTypes fs \<and>
         wellTypedFields fs'"
  using assms
proof (induction "fieldsWeight fs" arbitrary: fs addr ro ret fs' rule: less_induct)
  case less
  show ?case
  proof (cases fs)
    case Nil
    then show ?thesis using less.prems by simp
  next
    case (Cons p rest)
    obtain sf fv where fs: "fs = (sf, fv) # rest" using Cons by (cases p) simp
    have wt: "wellTyped fv" "wellTypedFields rest"
      using less.prems(1) by (simp_all add: fs)
    have ni: "\<not> embedsInterface h [(sf, TypeOf fv)]" "\<not> embedsInterface h (fieldTypes rest)"
      using less.prems(2) embedsInterface_Cons [of h sf "TypeOf fv" "fieldTypes rest"]
      by (simp_all add: fs)
    have cs: "ComputeSchema h ((sf, TypeOf fv) # fieldTypes rest) =
                ComputeSchema h [(sf, TypeOf fv)] @ ComputeSchema h (fieldTypes rest)"
      by (rule ComputeSchema_Cons)
    have R: "ret' = ComputeSchema h (fieldTypes rest) \<and> fieldTypes rest' = fieldTypes rest \<and>
             wellTypedFields rest'"
      if "fetchStructFieldInfos_loop h addr ro rest = Some (ret', rest')" for ret' rest'
      using less.hyps [of rest addr ro ret' rest'] wt ni that by (simp add: fs)
    note T = infosStep_typed [OF wt(1) ni(1), of addr ro]
    note run = less.prems(3) [unfolded fs infos_loop_Cons]
    show ?thesis
    proof (cases "infosStep h addr ro sf fv")
      case IUnexported
      with run obtain ret' rest' where
        r: "fetchStructFieldInfos_loop h addr ro rest = Some (ret', rest')"
        and eq: "ret = ret'" "fs' = (sf, fv) # rest'"
        by (auto split: option.splits)
      show ?thesis using R [OF r] T IUnexported eq by (simp add: fs cs wt)
    next
      case IPanics
      with run show ?thesis by simp
    next
      case (IEmits fv1)
      with run obtain ret' rest' where
        r: "fetchStructFieldInfos_loop h addr ro rest = Some (ret', rest')"
        and eq: "ret = ParseStructFieldJsonInfo h sf # ret'" "fs' = (sf, fv1) # rest'"
        by (auto split: option.splits)
      show ?thesis using R [OF r] T IEmits eq by (simp add: fs cs wt)
    next
      case (IDescends fv1 e1 n fs2 a2 r2)
      with run obtain sub fs2' ret' rest' where
        s: "fetchStructFieldInfos_loop h a2 r2 fs2 = Some (sub, fs2')"
        and r: "fetchStructFieldInfos_loop h addr ro rest = Some (ret', rest')"
        and eq: "ret = sub @ ret'" "fs' = (sf, infosSetElem fv1 e1 (VStruct n fs2')) # rest'"
        by (auto split: option.splits)
      have T': "ComputeSchema h [(sf, TypeOf fv)] = ComputeSchema h (fieldTypes fs2)"
        "wellTypedFields fs2" "\<not> embedsInterface h (fieldTypes fs2)"
        "\<And>fs'. fieldTypes fs' = fieldTypes fs2 \<Longrightarrow> wellTypedFields fs' \<Longrightarrow>
                TypeOf (infosSetElem fv1 e1 (VStruct n fs')) = TypeOf fv \<and>
                wellTyped (infosSetElem fv1 e1 (VStruct n fs'))"
        using T IDescends by simp_all
      have S: "sub = ComputeSchema h (fieldTypes fs2) \<and> fieldTypes fs2' = fieldTypes fs2 \<and>
               wellTypedFields fs2'"
        using less.hyps [of fs2 a2 r2 sub fs2'] infosStep_weight [OF IDescends, of rest] T'(2,3) s
        by (simp add: fs)
      show ?thesis using R [OF r] S T'(1) T'(4) [of fs2'] eq by (simp add: fs cs wt)
    qed
  qed
qed

lemma V2_loop_Cons:
  "fetchStructFieldValueV2s_loop h addr ro ((sf, fv) # rest) allocatePtr index =
     (case valueStep h addr ro allocatePtr sf fv of
        Unexported \<Rightarrow>
          (case fetchStructFieldValueV2s_loop h addr ro rest allocatePtr index of
             None \<Rightarrow> None
           | Some (ret, index', rest') \<Rightarrow> Some (ret, index', (sf, fv) # rest'))
      | Panics \<Rightarrow> None
      | NilSkipped \<Rightarrow>
          (case fetchStructFieldValueV2s_loop h addr ro rest allocatePtr (index + 1) of
             None \<Rightarrow> None
           | Some (ret, index', rest') \<Rightarrow> Some (ret, index', (sf, fv) # rest'))
      | Emits fv1 e \<Rightarrow>
          (case fetchStructFieldValueV2s_loop h addr ro rest allocatePtr (index + 1) of
             None \<Rightarrow> None
           | Some (ret, index', rest') \<Rightarrow>
               Some (\<lparr>Value = e, Index = index\<rparr> # ret, index', (sf, fv1) # rest'))
      | Descends fv1 n fs a r \<Rightarrow>
          (case fetchStructFieldValueV2s_loop h a r fs allocatePtr index of
             None \<Rightarrow> None
           | Some (subValues, index1, fs') \<Rightarrow>
               (case fetchStructFieldValueV2s_loop h addr ro rest allocatePtr index1 of
                  None \<Rightarrow> None
                | Some (ret, index', rest') \<Rightarrow>
                    Some (subValues @ ret, index', (sf, setElem fv1 (VStruct n fs')) # rest'))))"
  by (auto simp: valueStep_def split: indirection.splits govalue.splits)

lemma valueStep_weight:
  "valueStep h addr ro allocatePtr sf fv = Descends fv1 n fs a r \<Longrightarrow>
     fieldsWeight fs < fieldsWeight ((sf, fv) # rest)"
  by (auto simp: valueStep_def split: if_splits indirection.splits govalue.splits
           dest!: valueElem_weight)

lemma valueStep_read:
  "valueStep h addr ro False sf fv \<noteq> Panics"
  "valueStep h addr ro False sf fv = Emits fv1 e \<Longrightarrow> fv1 = fv"
  "valueStep h addr ro False sf fv = Descends fv1 n fs a r \<Longrightarrow> setElem fv1 (VStruct n fs) = fv"
  by (auto simp: valueStep_def valueElem_def setElem_def
           split: if_splits govalue.splits option.splits)


declare fetchStructFieldValueV2s_loop.simps(2) [simp del]

lemma infos_typed_total:
  assumes "wellTypedFields fs" "\<not> embedsInterface h (fieldTypes fs)"
    "\<not> embedsReadOnlyPtr h (fieldTypes fs)"
  shows "\<exists>ret fs'. fetchStructFieldInfos_loop h True False fs = Some (ret, fs')"
  using assms
proof (induction "fieldsWeight fs" arbitrary: fs rule: less_induct)
  case less
  show ?case
  proof (cases fs)
    case Nil
    then show ?thesis by simp
  next
    case (Cons p rest)
    obtain sf fv where fs: "fs = (sf, fv) # rest" using Cons by (cases p) simp
    have wt: "wellTyped fv" "wellTypedFields rest"
      using less.prems(1) by (simp_all add: fs)
    have ni: "\<not> embedsInterface h [(sf, TypeOf fv)]" "\<not> embedsInterface h (fieldTypes rest)"
      using less.prems(2) embedsInterface_Cons [of h sf "TypeOf fv" "fieldTypes rest"]
      by (simp_all add: fs)
    have nr: "\<not> embedsReadOnlyPtr h [(sf, TypeOf fv)]" "\<not> embedsReadOnlyPtr h (fieldTypes rest)"
      using less.prems(3) embedsReadOnlyPtr_Cons [of h sf "TypeOf fv" "fieldTypes rest"]
      by (simp_all add: fs)
    obtain ret' rest' where r: "fetchStructFieldInfos_loop h True False rest = Some (ret', rest')"
      using less.hyps [of rest] wt ni nr by (auto simp: fs)
    note T = infosStep_typed [OF wt(1) ni(1), of True False]
    show ?thesis
    proof (cases "infosStep h True False sf fv")
      case IUnexported
      then show ?thesis by (simp add: fs infos_loop_Cons r)
    next
      case IPanics
      then show ?thesis using T nr by simp
    next
      case (IEmits fv1)
      then show ?thesis by (simp add: fs infos_loop_Cons r)
    next
      case (IDescends fv1 e1 n fs2 a2 r2)
      then have T': "wellTypedFields fs2" "\<not> embedsInterface h (fieldTypes fs2)" "a2" "\<not> r2"
        "\<not> embedsReadOnlyPtr h (fieldTypes fs2)"
        using T nr by simp_all
      obtain sub fs2' where "fetchStructFieldInfos_loop h True False fs2 = Some (sub, fs2')"
        using less.hyps [of fs2] infosStep_weight [OF IDescends, of rest] T'(1,2,5)
        by (auto simp: fs)
      then show ?thesis using IDescends T'(3,4) by (simp add: fs infos_loop_Cons r)
    qed
  qed
qed

lemma valueElem_VPtr:
  assumes "wellTyped (VPtr t tgt)"
  shows "(valueElem addr ro fro True (VPtr t tgt) = Panic \<and> (\<not> addr \<or> fro) \<and> tgt = None) \<or>
         (\<exists>e. valueElem addr ro fro True (VPtr t tgt) = Elem (VPtr t (Some e)) e True ro \<and>
              TypeOf e = t \<and> wellTyped e)"
  using assms by (cases tgt) (auto simp: valueElem_def)

lemma valueStep_typed:
  assumes "wellTyped fv" "\<not> embedsInterface h [(sf, TypeOf fv)]"
  shows "case valueStep h addr ro True sf fv of
           Unexported \<Rightarrow> ComputeSchema h [(sf, TypeOf fv)] = []
         | Panics \<Rightarrow> \<not> addr \<or> ro \<or> embedsReadOnlyPtr h [(sf, TypeOf fv)]
         | NilSkipped \<Rightarrow> False
         | Emits fv1 e \<Rightarrow> ComputeSchema h [(sf, TypeOf fv)] = [ParseStructFieldJsonInfo h sf]
         | Descends fv1 n fs a r \<Rightarrow>
             ComputeSchema h [(sf, TypeOf fv)] = ComputeSchema h (fieldTypes fs) \<and>
             wellTypedFields fs \<and> \<not> embedsInterface h (fieldTypes fs) \<and> (addr \<longrightarrow> a) \<and>
             r = ro \<and>
             (embedsReadOnlyPtr h (fieldTypes fs) \<longrightarrow> embedsReadOnlyPtr h [(sf, TypeOf fv)])"
proof (cases "IsFieldExportable h (StructField.Name sf) \<and> Anonymous sf")
  case False
  then show ?thesis using assms by (auto simp: valueStep_def ComputeSchema.simps(2))
next
  case True
  then have ex: "IsFieldExportable h (StructField.Name sf)" and an: "Anonymous sf" by simp_all
  show ?thesis
  proof (cases fv)
    case (VBasic n p)
    then show ?thesis using True assms
      by (simp add: valueStep_def valueElem_def ComputeSchema.simps(2))
  next
    case (VStruct n fs)
    show ?thesis
    proof (cases "TypeOf fv = TimeType")
      case tt: True
      have "valueStep h addr ro True sf fv = Emits fv \<lparr>data = fv, flagRO = fieldRO ro sf\<rparr>"
        using ex an tt VStruct
        by (simp add: valueStep_def valueElem_def del: TypeOf_VStruct)
      moreover have "ComputeSchema h [(sf, TypeOf fv)] = [ParseStructFieldJsonInfo h sf]"
        by (simp only: tt ComputeSchema_time [OF ex an]) simp
      ultimately show ?thesis by simp
    next
      case nt: False
      have "valueStep h addr ro True sf fv = Descends fv n fs addr ro"
        using ex an nt VStruct
        by (simp add: valueStep_def valueElem_def del: TypeOf_VStruct)
      then show ?thesis using assms ex an nt VStruct
        by (auto simp: ComputeSchema.simps(2) embedsInterface.simps(2) embedsReadOnlyPtr.simps(2))
    qed
  next
    case (VInterface n d)
    then show ?thesis using True assms by (simp add: embedsInterface.simps(2))
  next
    case (VPtr t tgt)
    from valueElem_VPtr [of t tgt addr ro "fieldRO ro sf"] assms(1) VPtr
    consider "valueElem addr ro (fieldRO ro sf) True fv = Panic" "\<not> addr \<or> fieldRO ro sf"
      | e where "valueElem addr ro (fieldRO ro sf) True fv = Elem (VPtr t (Some e)) e True ro"
          "TypeOf e = t" "wellTyped e"
      by auto
    then show ?thesis
    proof cases
      case 1
      then show ?thesis using True VPtr
        by (auto simp: valueStep_def fieldRO_def embedsReadOnlyPtr.simps(2) split: gotype.splits)
    next
      case 2
      then show ?thesis using True assms VPtr
        by (cases e)
           (auto simp: valueStep_def ComputeSchema.simps(2) embedsInterface.simps(2)
              embedsReadOnlyPtr.simps(2))
    qed
  qed
qed

lemma V2_write_typed:
  assumes "wellTypedFields fs" "\<not> embedsInterface h (fieldTypes fs)"
    and "fetchStructFieldValueV2s_loop h addr ro fs True index = Some (ret, index', fs')"
  shows "length ret = length (ComputeSchema h (fieldTypes fs)) \<and> index' = index + int (length ret)"
  using assms
proof (induction "fieldsWeight fs" arbitrary: fs addr ro index ret index' fs' rule: less_induct)
  case less
  show ?case
  proof (cases fs)
    case Nil
    then show ?thesis using less.prems by simp
  next
    case (Cons p rest)
    obtain sf fv where fs: "fs = (sf, fv) # rest" using Cons by (cases p) simp
    have wt: "wellTyped fv" "wellTypedFields rest"
      using less.prems(1) by (simp_all add: fs)
    have ni: "\<not> embedsInterface h [(sf, TypeOf fv)]" "\<not> embedsInterface h (fieldTypes rest)"
      using less.prems(2) embedsInterface_Cons [of h sf "TypeOf fv" "fieldTypes rest"]
      by (simp_all add: fs)
    have cs: "ComputeSchema h ((sf, TypeOf fv) # fieldTypes rest) =
                ComputeSchema h [(sf, TypeOf fv)] @ ComputeSchema h (fieldTypes rest)"
      by (rule ComputeSchema_Cons)
    have R: "length ret' = length (ComputeSchema h (fieldTypes rest)) \<and> i' = i + int (length ret')"
      if "fetchStructFieldValueV2s_loop h addr ro rest True i = Some (ret', i', rest')" for ret' i i' rest'
      using less.hyps [of rest addr ro i ret' i' rest'] wt ni that by (simp add: fs)
    note T = valueStep_typed [OF wt(1) ni(1), of addr ro]
    note run = less.prems(3) [unfolded fs V2_loop_Cons]
    show ?thesis
    proof (cases "valueStep h addr ro True sf fv")
      case Unexported
      with run obtain ret' rest' where
        r: "fetchStructFieldValueV2s_loop h addr ro rest True index = Some (ret', index', rest')"
        and eq: "ret = ret'"
        by (auto split: option.splits)
      show ?thesis using R [OF r] T Unexported eq by (simp add: fs cs)
    next
      case Panics
      with run show ?thesis by simp
    next
      case NilSkipped
      with T show ?thesis by simp
    next
      case (Emits fv1 e)
      with run obtain ret' rest' where
        r: "fetchStructFieldValueV2s_loop h addr ro rest True (index + 1) = Some (ret', index', rest')"
        and eq: "ret = \<lparr>Value = e, Index = index\<rparr> # ret'"
        by (auto split: option.splits)
      show ?thesis using R [OF r] T Emits eq by (simp add: fs cs)
    next
      case (Descends fv1 n fs2 a r)
      with run obtain sub i1 fs2' ret' rest' where
        s: "fetchStructFieldValueV2s_loop h a r fs2 True index = Some (sub, i1, fs2')"
        and r: "fetchStructFieldValueV2s_loop h addr ro rest True i1 = Some (ret', index', rest')"
        and eq: "ret = sub @ ret'"
        by (auto split: option.splits)
      have T': "ComputeSchema h [(sf, TypeOf fv)] = ComputeSchema h (fieldTypes fs2)"
        "wellTypedFields fs2" "\<not> embedsInterface h (fieldTypes fs2)"
        using T Descends by simp_all
      have S: "length sub = length (ComputeSchema h (fieldTypes fs2)) \<and> i1 = index + int (length sub)"
        using less.hyps [of fs2 a r index sub i1 fs2'] valueStep_weight [OF Descends, of rest] T'(2,3) s
        by (simp add: fs)
      show ?thesis using R [OF r] S T'(1) eq by (simp add: fs cs)
    qed
  qed
qed

lemma V2_write_total:
  assumes "wellTypedFields fs" "\<not> embedsInterface h (fieldTypes fs)"
    "\<not> embedsReadOnlyPtr h (fieldTypes fs)"
  shows "\<exists>ret index' fs'.
           fetchStructFieldValueV2s_loop h True False fs True index = Some (ret, index', fs')"
  using assms
proof (induction "fieldsWeight fs" arbitrary: fs index rule: less_induct)
  case less
  show ?case
  proof (cases fs)
    case Nil
    then show ?thesis by simp
  next
    case (Cons p rest)
    obtain sf fv where fs: "fs = (sf, fv) # rest" using Cons by (cases p) simp
    have wt: "wellTyped fv" "wellTypedFields rest"
      using less.prems(1) by (simp_all add: fs)
    have ni: "\<not> embedsInterface h [(sf, TypeOf fv)]" "\<not> embedsInterface h (fieldTypes rest)"
      using less.prems(2) embedsInterface_Cons [of h sf "TypeOf fv" "fieldTypes rest"]
      by (simp_all add: fs)
    have nr: "\<not> embedsReadOnlyPtr h [(sf, TypeOf fv)]" "\<not> embedsReadOnlyPtr h (fieldTypes rest)"
      using less.prems(3) embedsReadOnlyPtr_Cons [of h sf "TypeOf fv" "fieldTypes rest"]
      by (simp_all add: fs)
    have R: "\<exists>ret' i' rest'.
               fetchStructFieldValueV2s_loop h True False rest True i = Some (ret', i', rest')" for i
      using less.hyps [of rest i] wt ni nr by (simp add: fs)
    note T = valueStep_typed [OF wt(1) ni(1), of True False]
    show ?thesis
    proof (cases "valueStep h True False True sf fv")
      case Unexported
      then show ?thesis using R [of index] by (auto simp: fs V2_loop_Cons)
    next
      case Panics
      then show ?thesis using T nr by simp
    next
      case NilSkipped
      then show ?thesis using T by simp
    next
      case (Emits fv1 e)
      then show ?thesis using R [of "index + 1"] by (auto simp: fs V2_loop_Cons)
    next
      case (Descends fv1 n fs2 a r)
      then have T': "wellTypedFields fs2" "\<not> embedsInterface h (fieldTypes fs2)" "a" "\<not> r"
        "\<not> embedsReadOnlyPtr h (fieldTypes fs2)"
        using T nr by simp_all
      obtain sub i1 fs2' where
        "fetchStructFieldValueV2s_loop h True False fs2 True index = Some (sub, i1, fs2')"
        using less.hyps [of fs2 index] valueStep_weight [OF Descends, of rest] T'(1,2,5)
        by (auto simp: fs)
      then show ?thesis using Descends T'(3,4) R [of i1] by (auto simp: fs V2_loop_Cons)
    qed
  qed
qed


lemma V2_index:
  assumes "fetchStructFieldValueV2s_loop h addr ro fs allocatePtr index = Some (ret, index', fs')"
  shows "index \<le> index' \<and> sorted_wrt (<) (map Index ret) \<and>
         (\<forall>e \<in> set ret. index \<le> Index e \<and> Index e < index')"
  using assms
proof (induction "fieldsWeight fs" arbitrary: fs addr ro index ret index' fs' rule: less_induct)
  case less
  show ?case
  proof (cases fs)
    case Nil
    then show ?thesis using less.prems by simp
  next
    case (Cons p rest)
    obtain sf fv where fs: "fs = (sf, fv) # rest" using Cons by (cases p) simp
    have R: "i \<le> i' \<and> sorted_wrt (<) (map Index ret') \<and> (\<forall>e \<in> set ret'. i \<le> Index e \<and> Index e < i')"
      if "fetchStructFieldValueV2s_loop h addr ro rest allocatePtr i = Some (ret', i', rest')"
      for ret' i i' rest'
      using less.hyps [of rest addr ro i ret' i' rest'] that by (simp add: fs)
    note run = less.prems [unfolded fs V2_loop_Cons]
    show ?thesis
    proof (cases "valueStep h addr ro allocatePtr sf fv")
      case Unexported
      with run obtain ret' rest' where
        r: "fetchStructFieldValueV2s_loop h addr ro rest allocatePtr index = Some (ret', index', rest')"
        and eq: "ret = ret'"
        by (auto split: option.splits)
      show ?thesis using R [OF r] eq by simp
    next
      case Panics
      with run show ?thesis by simp
    next
      case NilSkipped
      with run obtain ret' rest' where
        r: "fetchStructFieldValueV2s_loop h addr ro rest allocatePtr (index + 1) = Some (ret', index', rest')"
        and eq: "ret = ret'"
        by (auto split: option.splits)
      show ?thesis using R [OF r] eq by auto
    next
      case (Emits fv1 e)
      with run obtain ret' rest' where
        r: "fetchStructFieldValueV2s_loop h addr ro rest allocatePtr (index + 1) = Some (ret', index', rest')"
        and eq: "ret = \<lparr>Value = e, Index = index\<rparr> # ret'"
        by (auto split: option.splits)
      show ?thesis using R [OF r] eq by auto
    next
      case (Descends fv1 n fs2 a r)
      with run obtain sub i1 fs2' ret' rest' where
        s: "fetchStructFieldValueV2s_loop h a r fs2 allocatePtr index = Some (sub, i1, fs2')"
        and r: "fetchStructFieldValueV2s_loop h addr ro rest allocatePtr i1 = Some (ret', index', rest')"
        and eq: "ret = sub @ ret'"
        by (auto split: option.splits)
      have S: "index \<le> i1 \<and> sorted_wrt (<) (map Index sub) \<and> (\<forall>e \<in> set sub. index \<le> Index e \<and> Index e < i1)"
        using less.hyps [of fs2 a r index sub i1 fs2'] valueStep_weight [OF Descends, of rest] s
        by (simp add: fs)
      show ?thesis using R [OF r] S eq by (fastforce simp: sorted_wrt_append)
    qed
  qed
qed

lemma V2_loop_append:
  "fetchStructFieldValueV2s_loop h addr ro (xs @ ys) allocatePtr index =
     (case fetchStructFieldValueV2s_loop h addr ro xs allocatePtr index of
        None \<Rightarrow> None
      | Some (r1, i1, xs') \<Rightarrow>
          (case fetchStructFieldValueV2s_loop h addr ro ys allocatePtr i1 of
             None \<Rightarrow> None
           | Some (r2, i2, ys') \<Rightarrow> Some (r1 @ r2, i2, xs' @ ys')))"
proof (induction xs arbitrary: index)
  case Nil
  show ?case by (simp split: option.splits)
next
  case (Cons p xs)
  obtain sf fv where p: "p = (sf, fv)" by (cases p)
  show ?case
    by (cases "valueStep h addr ro allocatePtr sf fv")
       (simp_all add: p V2_loop_Cons Cons.IH split: option.splits)
qed

lemma V1_loop_Cons:
  "fetchStructFieldValueSet_loop h addr ro ((sf, fv) # rest) allocatePtr =
     (case valueStep h addr ro allocatePtr sf fv of
        Unexported \<Rightarrow>
          (case fetchStructFieldValueSet_loop h addr ro rest allocatePtr of
             None \<Rightarrow> None
           | Some (flds, rest') \<Rightarrow> Some (flds, (sf, fv) # rest'))
      | Panics \<Rightarrow> None
      | NilSkipped \<Rightarrow>
          (case fetchStructFieldValueSet_loop h addr ro rest allocatePtr of
             None \<Rightarrow> None
           | Some (flds, rest') \<Rightarrow> Some (flds, (sf, fv) # rest'))
      | Emits fv1 e \<Rightarrow>
          (case fetchStructFieldValueSet_loop h addr ro rest allocatePtr of
             None \<Rightarrow> None
           | Some (flds, rest') \<Rightarrow>
               Some (\<lparr>Info = ParseStructFieldJsonInfo h sf, SStructFieldValue.Value = e\<rparr> # flds,
                     (sf, fv1) # rest'))
      | Descends fv1 n fs a r \<Rightarrow>
          (case fetchStructFieldValueSet_loop h a r fs allocatePtr of
             None \<Rightarrow> None
           | Some (subfields, fs') \<Rightarrow>
               (case fetchStructFieldValueSet_loop h addr ro rest allocatePtr of
                  None \<Rightarrow> None
                | Some (flds, rest') \<Rightarrow>
                    Some (subfields @ flds, (sf, setElem fv1 (VStruct n fs')) # rest'))))"
  by (auto simp: valueStep_def split: indirection.splits govalue.splits)

declare fetchStructFieldValueSet_loop.simps(2) [simp del]

lemma V2_read:
  "\<exists>ret index'. fetchStructFieldValueV2s_loop h addr ro fs False index = Some (ret, index', fs)"
proof (induction "fieldsWeight fs" arbitrary: fs addr ro index rule: less_induct)
  case less
  show ?case
  proof (cases fs)
    case Nil
    then show ?thesis by simp
  next
    case (Cons p rest)
    obtain sf fv where fs: "fs = (sf, fv) # rest" using Cons by (cases p) simp
    have R: "\<exists>ret index'. fetchStructFieldValueV2s_loop h addr ro rest False i = Some (ret, index', rest)" for i
      using less [of rest addr ro i] by (simp add: fs)
    show ?thesis
    proof (cases "valueStep h addr ro False sf fv")
      case Unexported
      then show ?thesis using R [of index] by (auto simp: fs V2_loop_Cons)
    next
      case Panics
      then show ?thesis by (simp add: valueStep_read)
    next
      case NilSkipped
      then show ?thesis using R [of "index + 1"] by (auto simp: fs V2_loop_Cons)
    next
      case (Emits fv1 e)
      then show ?thesis using R [of "index + 1"] valueStep_read(2) [OF Emits]
        by (auto simp: fs V2_loop_Cons)
    next
      case (Descends fv1 n fs2 a r)
      obtain sub i1 where S: "fetchStructFieldValueV2s_loop h a r fs2 False index = Some (sub, i1, fs2)"
        using less [of fs2 a r index] valueStep_weight [OF Descends, of rest] by (auto simp: fs)
      show ?thesis using R [of i1] S valueStep_read(3) [OF Descends] Descends
        by (auto simp: fs V2_loop_Cons)
    qed
  qed
qed

lemma V1_read:
  "\<exists>flds. fetchStructFieldValueSet_loop h addr ro fs False = Some (flds, fs)"
proof (induction "fieldsWeight fs" arbitrary: fs addr ro rule: less_induct)
  case less
  show ?case
  proof (cases fs)
    case Nil
    then show ?thesis by simp
  next
    case (Cons p rest)
    obtain sf fv where fs: "fs = (sf, fv) # rest" using Cons by (cases p) simp
    have R: "\<exists>flds. fetchStructFieldValueSet_loop h addr ro rest False = Some (flds, rest)"
      using less [of rest addr ro] by (simp add: fs)
    show ?thesis
    proof (cases "valueStep h addr ro False sf fv")
      case Unexported
      then show ?thesis using R by (auto simp: fs V1_loop_Cons)
    next
      case Panics
      then show ?thesis by (simp add: valueStep_read)
    next
      case NilSkipped
      then show ?thesis using R by (auto simp: fs V1_loop_Cons)
    next
      case (Emits fv1 e)
      then show ?thesis using R valueStep_read(2) [OF Emits]
        by (auto simp: fs V1_loop_Cons)
    next
      case (Descends fv1 n fs2 a r)
      obtain sub where S: "fetchStructFieldValueSet_loop h a r fs2 False = Some (sub, fs2)"
        using less [of fs2 a r] valueStep_weight [OF Descends, of rest] by (auto simp: fs)
      show ?thesis using R S valueStep_read(3) [OF Descends] Descends
        by (auto simp: fs V1_loop_Cons)
    qed
  qed
qed

section \<open>Read mode\<close>

text \<open>Unfolding the example records and the walkers, to run them on concrete inputs.\<close>

lemmas example_defs =
  plainField_def embeddedField_def typeA_def valueA_def valueT_def valueW_def valueU_def
  valueV_def typeB_def typeC_def valueC_def valueD_def asciiToLower_def
  valueAccount_def secretField_def emptyCache_def cacheOf_def specCollaborators_def specIsFieldExportable_def specCamelSplit_def
  specCapitalize_def isUpper_def asciiLower_def asciiUpper_def

lemmas run_defs =
  fetchStructFieldInfos_def fetchStructFieldValueV2s_def fetchStructFieldValueSet_def
  FetchStructFieldValueSet_def FetchStructFieldValueSetForWrite_def
  FetchStructFieldValueSetV2_def FetchStructFieldValueSetForWriteV2_def
  cachefetchStructFieldInfos_def
  fetchStructFieldInfos_loop.simps(2) fetchStructFieldValueV2s_loop.simps(2)
  fetchStructFieldValueSet_loop.simps(2)
  infosPtrElem_def infosIfaceElem_def valueElem_def setElem_def infosSetElem_def
  fieldRO_def TypeOf.simps(2) TimeType_def

text \<open>
  Claim C10.  In read mode (\<open>allocatePtr = false\<close>) both value walkers return, whether
  the instance is addressable or not and read-only or not, and the instance they leave
  is the instance they were given: no field is written, and a nil embedded pointer or
  interface stays nil.
\<close>

theorem read_mode_leaves_instance_unchanged:
  "(\<exists>flds. FetchStructFieldValueSet h addr ro (VStruct n fs) = Some (flds, VStruct n fs)) \<and>
   (\<exists>ret index'. fetchStructFieldValueV2s h addr ro (VStruct n fs) False index =
      Some (ret, index', VStruct n fs))"
proof -
  obtain flds where "fetchStructFieldValueSet_loop h addr ro fs False = Some (flds, fs)"
    using V1_read by blast
  moreover obtain ret index' where
    "fetchStructFieldValueV2s_loop h addr ro fs False index = Some (ret, index', fs)"
    using V2_read by blast
  ultimately show ?thesis
    by (simp add: FetchStructFieldValueSet_def fetchStructFieldValueSet_def
          fetchStructFieldValueV2s_def)
qed

theorem read_mode_leaves_instance_unchanged_witness:
  "fetchStructFieldValueV2s specCollaborators False False (valueT None) False 0 =
     Some ([\<lparr>Value = \<lparr>data = VBasic ''int'' ''7'', flagRO = False\<rparr>, Index = 1\<rparr>], 2, valueT None) \<and>
   (\<exists>flds. FetchStructFieldValueSet specCollaborators False False (valueT None) = Some (flds, valueT None))"
  using read_mode_leaves_instance_unchanged [of specCollaborators False False "''T''"
      "[(embeddedField ''A'', VPtr typeA None), (plainField ''Z'', VBasic ''int'' ''7'')]" 0]
  by (simp add: example_defs run_defs)

text \<open>
  Claim C5.  In read mode, an exported embedded field that is a nil pointer or a nil
  interface adds exactly one to the schema index and gives no entry, neither for
  itself nor for anything inside it, whatever its element type: the entries of a
  record are those of the fields before it, followed by those of the fields after
  it numbered from one more than where the fields before it stopped.
\<close>

theorem fetchStructFieldValueV2s_read_skips_nil_embedded:
  assumes "IsFieldExportable h (StructField.Name sf)" "Anonymous sf"
    and "fv = VPtr t None \<or> fv = VInterface n None"
  shows "\<exists>r1 i1 r2 i2.
           fetchStructFieldValueV2s_loop h addr ro pre False index = Some (r1, i1, pre) \<and>
           fetchStructFieldValueV2s_loop h addr ro post False (i1 + 1) = Some (r2, i2, post) \<and>
           fetchStructFieldValueV2s_loop h addr ro (pre @ (sf, fv) # post) False index =
             Some (r1 @ r2, i2, pre @ (sf, fv) # post)"
proof -
  obtain r1 i1 where 1: "fetchStructFieldValueV2s_loop h addr ro pre False index = Some (r1, i1, pre)"
    using V2_read by blast
  obtain r2 i2 where 2: "fetchStructFieldValueV2s_loop h addr ro post False (i1 + 1) = Some (r2, i2, post)"
    using V2_read by blast
  have "valueStep h addr ro False sf fv = NilSkipped"
    using assms by (auto simp: valueStep_def valueElem_def)
  then have "fetchStructFieldValueV2s_loop h addr ro ((sf, fv) # post) False i1 =
               Some (r2, i2, (sf, fv) # post)"
    using 2 by (simp add: V2_loop_Cons)
  then show ?thesis using 1 2 by (simp add: V2_loop_append)
qed

theorem fetchStructFieldValueV2s_read_skips_nil_embedded_witness:
  "fetchStructFieldValueV2s_loop specCollaborators True False
     [(plainField ''B'', VBasic ''int'' ''0''), (embeddedField ''A'', VPtr typeA None),
      (plainField ''Z'', VBasic ''int'' ''7'')] False 0 =
   Some ([\<lparr>Value = \<lparr>data = VBasic ''int'' ''0'', flagRO = False\<rparr>, Index = 0\<rparr>, \<lparr>Value = \<lparr>data = VBasic ''int'' ''7'', flagRO = False\<rparr>, Index = 2\<rparr>], 3,
     [(plainField ''B'', VBasic ''int'' ''0''), (embeddedField ''A'', VPtr typeA None),
      (plainField ''Z'', VBasic ''int'' ''7'')])"
  using fetchStructFieldValueV2s_read_skips_nil_embedded
    [of specCollaborators "embeddedField ''A''" "VPtr typeA None" typeA "''''" True False
        "[(plainField ''B'', VBasic ''int'' ''0'')]" 0 "[(plainField ''Z'', VBasic ''int'' ''7'')]"]
  by (simp add: example_defs run_defs)


section \<open>The schema and the instance\<close>

text \<open>
  Claim C8, as amended.  For a record type in which the walkers meet no embedded
  interface, the schema does not depend on the instance: on two well-typed instances of
  the type \<open>fetchStructFieldInfos\<close> returns the same policies, whatever the flags of
  the two instances (and it does return on instances that can be set: addressable, not
  read-only, and with no embedded pointer in the type that reflection marks read-only).
  In either mode, the \<open>Index\<close> values of the entries that
  \<open>fetchStructFieldValueV2s\<close> returns are strictly increasing, from the start index
  on and below the index it returns.
\<close>

theorem schema_instance_independent_indices_increasing:
  "(wellTypedFields fs1 \<and> wellTypedFields fs2 \<and> fieldTypes fs1 = fieldTypes fs2 \<and>
    \<not> embedsInterface h (fieldTypes fs1) \<longrightarrow>
      (\<not> embedsReadOnlyPtr h (fieldTypes fs1) \<longrightarrow>
         (\<exists>r v1 v2. fetchStructFieldInfos h True False (VStruct n fs1) = Some (r, v1) \<and>
                    fetchStructFieldInfos h True False (VStruct n fs2) = Some (r, v2))) \<and>
      (\<forall>a1 ro1 a2 ro2 r1 r2 v1 v2.
         fetchStructFieldInfos h a1 ro1 (VStruct n fs1) = Some (r1, v1) \<and>
         fetchStructFieldInfos h a2 ro2 (VStruct n fs2) = Some (r2, v2) \<longrightarrow> r1 = r2)) \<and>
   (fetchStructFieldValueV2s h addr ro v allocatePtr index = Some (ret, index', v') \<longrightarrow>
      sorted_wrt (<) (map Index ret) \<and> (\<forall>e \<in> set ret. index \<le> Index e \<and> Index e < index'))"
proof -
  have A: "r = ComputeSchema h (fieldTypes fs)"
    if "wellTypedFields fs" "\<not> embedsInterface h (fieldTypes fs)"
       "fetchStructFieldInfos h a b (VStruct n fs) = Some (r, w)" for fs a b r w
  proof -
    from that(3) obtain fs' where "fetchStructFieldInfos_loop h a b fs = Some (r, fs')"
      by (auto simp: fetchStructFieldInfos_def split: option.splits)
    then show ?thesis using infos_typed_Some [OF that(1,2)] by blast
  qed
  have B: "\<exists>r w. fetchStructFieldInfos h True False (VStruct n fs) = Some (r, w)"
    if "wellTypedFields fs" "\<not> embedsInterface h (fieldTypes fs)"
       "\<not> embedsReadOnlyPtr h (fieldTypes fs)" for fs
    using infos_typed_total [OF that] by (auto simp: fetchStructFieldInfos_def)
  have C: "sorted_wrt (<) (map Index ret) \<and> (\<forall>e \<in> set ret. index \<le> Index e \<and> Index e < index')"
    if "fetchStructFieldValueV2s h addr ro v allocatePtr index = Some (ret, index', v')"
  proof -
    from that obtain m fs fs' where
      "fetchStructFieldValueV2s_loop h addr ro fs allocatePtr index = Some (ret, index', fs')"
      by (auto simp: fetchStructFieldValueV2s_def split: govalue.splits option.splits)
    then show ?thesis using V2_index by blast
  qed
  have P1a: "\<exists>r v1 v2. fetchStructFieldInfos h True False (VStruct n fs1) = Some (r, v1) \<and>
                 fetchStructFieldInfos h True False (VStruct n fs2) = Some (r, v2)"
    if H: "wellTypedFields fs1 \<and> wellTypedFields fs2 \<and> fieldTypes fs1 = fieldTypes fs2 \<and>
           \<not> embedsInterface h (fieldTypes fs1)"
      and N: "\<not> embedsReadOnlyPtr h (fieldTypes fs1)"
  proof -
    obtain r1 w1 where 1: "fetchStructFieldInfos h True False (VStruct n fs1) = Some (r1, w1)"
      using B [of fs1] H N by blast
    obtain r2 w2 where 2: "fetchStructFieldInfos h True False (VStruct n fs2) = Some (r2, w2)"
      using B [of fs2] H N by auto
    have "r1 = r2" using A [OF _ _ 1] A [OF _ _ 2] H by auto
    then show ?thesis using 1 2 by blast
  qed
  have P1b: "r1 = r2"
    if H: "wellTypedFields fs1 \<and> wellTypedFields fs2 \<and> fieldTypes fs1 = fieldTypes fs2 \<and>
           \<not> embedsInterface h (fieldTypes fs1)"
      and R: "fetchStructFieldInfos h a1 ro1 (VStruct n fs1) = Some (r1, v1) \<and>
              fetchStructFieldInfos h a2 ro2 (VStruct n fs2) = Some (r2, v2)"
    for a1 ro1 a2 ro2 r1 r2 v1 v2
    using A [of fs1 a1 ro1 r1 v1] A [of fs2 a2 ro2 r2 v2] H R by auto
  have P2: "fetchStructFieldValueV2s h addr ro v allocatePtr index = Some (ret, index', v') \<longrightarrow>
      sorted_wrt (<) (map Index ret) \<and> (\<forall>e \<in> set ret. index \<le> Index e \<and> Index e < index')"
    using C by blast
  show ?thesis using P1a P1b P2 by blast
qed

theorem schema_instance_independent_indices_increasing_witness:
  "fetchStructFieldInfos specCollaborators True False (valueT None) =
     Some (map (ParseStructFieldJsonInfo specCollaborators) [plainField ''X'', plainField ''Y'', plainField ''Z''],
           valueT (Some (Zero typeA))) \<and>
   fetchStructFieldInfos specCollaborators True False (valueT (Some valueA)) =
     Some (map (ParseStructFieldJsonInfo specCollaborators) [plainField ''X'', plainField ''Y'', plainField ''Z''],
           valueT (Some valueA)) \<and>
   fetchStructFieldValueV2s specCollaborators True False (valueT (Some valueA)) False 0 =
     Some ([\<lparr>Value = \<lparr>data = VBasic ''int'' ''1'', flagRO = False\<rparr>, Index = 0\<rparr>, \<lparr>Value = \<lparr>data = VBasic ''int'' ''2'', flagRO = False\<rparr>, Index = 1\<rparr>,
            \<lparr>Value = \<lparr>data = VBasic ''int'' ''7'', flagRO = False\<rparr>, Index = 2\<rparr>], 3, valueT (Some valueA)) \<and>
   sorted_wrt (<) [0, 1, 2 :: int]"
  using schema_instance_independent_indices_increasing
    [of "[(embeddedField ''A'', VPtr typeA None), (plainField ''Z'', VBasic ''int'' ''7'')]"
        "[(embeddedField ''A'', VPtr typeA (Some valueA)), (plainField ''Z'', VBasic ''int'' ''7'')]"
        specCollaborators "''T''" True False "valueT (Some valueA)" False 0
        "[\<lparr>Value = \<lparr>data = VBasic ''int'' ''1'', flagRO = False\<rparr>, Index = 0\<rparr>, \<lparr>Value = \<lparr>data = VBasic ''int'' ''2'', flagRO = False\<rparr>, Index = 1\<rparr>,
          \<lparr>Value = \<lparr>data = VBasic ''int'' ''7'', flagRO = False\<rparr>, Index = 2\<rparr>]" 3 "valueT (Some valueA)"]
  by (simp add: example_defs run_defs)

text \<open>
  The claim as stated fails.  A record \<open>U\<close> that embeds an interface has the schema
  \<open>[I, Z]\<close> when computed from an instance whose interface is nil and \<open>[X, Y, Z]\<close>
  from one whose interface holds an \<open>A\<close>.  And the indices need not be positions of
  the schema: for \<open>W\<close>, which embeds a pointer to an empty record, a second fetch
  in read mode with the pointer nil gives \<open>Z\<close> the index 1 in a schema of length 1.
\<close>

theorem schema_depends_on_instance_counterexample:
  "wellTyped (valueU None) \<and> wellTyped (valueU (Some valueA)) \<and>
   TypeOf (valueU None) = TypeOf (valueU (Some valueA)) \<and>
   fetchStructFieldInfos specCollaborators True False (valueU None) =
     Some (map (ParseStructFieldJsonInfo specCollaborators) [embeddedField ''I'', plainField ''Z''], valueU None) \<and>
   fetchStructFieldInfos specCollaborators True False (valueU (Some valueA)) =
     Some (map (ParseStructFieldJsonInfo specCollaborators) [plainField ''X'', plainField ''Y'', plainField ''Z''],
           valueU (Some valueA)) \<and>
   FetchStructFieldValueSetV2 specCollaborators emptyCache True False (valueW None) =
     Some (\<lparr>Infos = map (ParseStructFieldJsonInfo specCollaborators) [plainField ''Z''],
            Values = [\<lparr>Value = \<lparr>data = VBasic ''int'' ''7'', flagRO = False\<rparr>, Index = 0\<rparr>]\<rparr>,
           cacheOf (TypeOf (valueW None)) (map (ParseStructFieldJsonInfo specCollaborators) [plainField ''Z'']),
           valueW (Some (VStruct ''E'' []))) \<and>
   FetchStructFieldValueSetV2 specCollaborators
       (cacheOf (TypeOf (valueW None)) (map (ParseStructFieldJsonInfo specCollaborators) [plainField ''Z'']))
       True False (valueW None) =
     Some (\<lparr>Infos = map (ParseStructFieldJsonInfo specCollaborators) [plainField ''Z''],
            Values = [\<lparr>Value = \<lparr>data = VBasic ''int'' ''7'', flagRO = False\<rparr>, Index = 1\<rparr>]\<rparr>,
           cacheOf (TypeOf (valueW None)) (map (ParseStructFieldJsonInfo specCollaborators) [plainField ''Z'']),
           valueW None)"
  by (simp add: example_defs run_defs)

section \<open>Allocation during schema computation\<close>

lemma infos_loop_Cons_Some:
  assumes "fetchStructFieldInfos_loop h addr ro ((sf, fv) # rest) = Some (ret, fs')"
  shows "\<exists>ret' rest' fv'. fetchStructFieldInfos_loop h addr ro rest = Some (ret', rest') \<and>
           fs' = (sf, fv') # rest'"
  using assms
  by (cases "infosStep h addr ro sf fv") (auto simp: infos_loop_Cons split: option.splits)

lemma infos_loop_length:
  "fetchStructFieldInfos_loop h addr ro fs = Some (ret, fs') \<Longrightarrow> length fs' = length fs"
proof (induction fs arbitrary: ret fs')
  case Nil
  then show ?case by simp
next
  case (Cons p rest)
  obtain sf fv where p: "p = (sf, fv)" by (cases p)
  from infos_loop_Cons_Some [OF Cons.prems [unfolded p]] Cons.IH show ?case by auto
qed

lemma Zero_VInterface: "Zero t = VInterface n d \<Longrightarrow> d = None"
  by (cases t) auto

lemma infosStep_nil_ptr_cases:
  assumes "IsFieldExportable h (StructField.Name sf)" "Anonymous sf"
  shows "\<not> addr \<or> ro \<or> PkgPath sf \<noteq> [] \<Longrightarrow> infosStep h addr ro sf (VPtr t None) = IPanics"
    and "PkgPath sf = [] \<Longrightarrow> Zero t = VStruct m fs2 \<Longrightarrow>
           infosStep h True False sf (VPtr t None) =
             IDescends (VPtr t (Some (Zero t))) (Zero t) m fs2 True False"
    and "PkgPath sf = [] \<Longrightarrow> \<forall>m fs2. Zero t \<noteq> VStruct m fs2 \<Longrightarrow>
           infosStep h True False sf (VPtr t None) = IEmits (VPtr t (Some (Zero t)))"
  using assms
  by (auto simp: infosStep_def infosPtrElem_def infosIfaceElem_def fieldRO_def
           split: govalue.splits option.splits dest: Zero_VInterface)

lemma infos_loop_nil_ptr_head:
  assumes "IsFieldExportable h (StructField.Name sf)" "Anonymous sf"
    and "fetchStructFieldInfos_loop h addr ro ((sf, VPtr t None) # rest) = Some (ret, fs')"
  shows "addr \<and> \<not> ro \<and> PkgPath sf = [] \<and>
         (\<exists>w rest'. fs' = (sf, VPtr t (Some w)) # rest' \<and>
           (case Zero t of
              VStruct m fs2 \<Rightarrow> \<exists>sub. fetchStructFieldInfos h True False (Zero t) = Some (sub, w)
            | _ \<Rightarrow> w = Zero t))"
proof -
  have a: "addr \<and> \<not> ro \<and> PkgPath sf = []"
  proof (rule ccontr)
    assume "\<not> (addr \<and> \<not> ro \<and> PkgPath sf = [])"
    then have "infosStep h addr ro sf (VPtr t None) = IPanics"
      using infosStep_nil_ptr_cases(1) [OF assms(1,2)] by blast
    then show False using assms(3) by (simp add: infos_loop_Cons)
  qed
  then have run: "fetchStructFieldInfos_loop h True False ((sf, VPtr t None) # rest) = Some (ret, fs')"
    using assms(3) by simp
  show ?thesis
  proof (cases "\<exists>m fs2. Zero t = VStruct m fs2")
    case True
    then obtain m fs2 where z: "Zero t = VStruct m fs2" by blast
    note st = infosStep_nil_ptr_cases(2) [OF assms(1,2) _ z]
    show ?thesis using run a z
      by (auto simp: infos_loop_Cons st setElem_def infosSetElem_def fetchStructFieldInfos_def
               split: option.splits)
  next
    case False
    then have st: "infosStep h True False sf (VPtr t None) = IEmits (VPtr t (Some (Zero t)))"
      using infosStep_nil_ptr_cases(3) [OF assms(1,2)] a by blast
    show ?thesis using run a False
      by (auto simp: infos_loop_Cons st split: option.splits govalue.splits)
  qed
qed

lemma infos_loop_nth_alloc:
  assumes "IsFieldExportable h (StructField.Name sf)" "Anonymous sf"
  shows "fetchStructFieldInfos_loop h addr ro fs = Some (ret, fs') \<Longrightarrow> i < length fs \<Longrightarrow>
         fs ! i = (sf, VPtr t None) \<Longrightarrow>
         addr \<and> \<not> ro \<and> PkgPath sf = [] \<and>
         (\<exists>w. fs' ! i = (sf, VPtr t (Some w)) \<and>
           (case Zero t of
              VStruct m fs2 \<Rightarrow> \<exists>sub. fetchStructFieldInfos h True False (Zero t) = Some (sub, w)
            | _ \<Rightarrow> w = Zero t))"
proof (induction fs arbitrary: i ret fs')
  case Nil
  then show ?case by simp
next
  case (Cons p rest)
  obtain sf0 fv0 where p: "p = (sf0, fv0)" by (cases p)
  show ?case
  proof (cases i)
    case 0
    then have "p = (sf, VPtr t None)" using Cons.prems(3) by simp
    then show ?thesis
      using infos_loop_nil_ptr_head [OF assms, of addr ro t rest ret fs'] Cons.prems(1) 0 by auto
  next
    case (Suc j)
    obtain ret' rest' fv' where
      r: "fetchStructFieldInfos_loop h addr ro rest = Some (ret', rest')" and f: "fs' = (sf0, fv') # rest'"
      using infos_loop_Cons_Some [OF Cons.prems(1) [unfolded p]] by blast
    show ?thesis using Cons.IH [OF r, of j] Cons.prems(2,3) Suc f by simp
  qed
qed

lemma infos_loop_nth_unexported:
  "fetchStructFieldInfos_loop h addr ro fs = Some (ret, fs') \<Longrightarrow> j < length fs \<Longrightarrow>
     fs ! j = (sf, fv) \<Longrightarrow> \<not> IsFieldExportable h (StructField.Name sf) \<Longrightarrow> fs' ! j = (sf, fv)"
proof (induction fs arbitrary: j ret fs')
  case Nil
  then show ?case by simp
next
  case (Cons p rest)
  obtain sf0 fv0 where p: "p = (sf0, fv0)" by (cases p)
  show ?case
  proof (cases j)
    case 0
    then have "p = (sf, fv)" using Cons.prems(3) by simp
    moreover have "infosStep h addr ro sf fv = IUnexported"
      using Cons.prems(4) by (simp add: infosStep_def)
    ultimately show ?thesis using Cons.prems(1) 0
      by (auto simp: infos_loop_Cons split: option.splits)
  next
    case (Suc k)
    obtain ret' rest' fv' where
      r: "fetchStructFieldInfos_loop h addr ro rest = Some (ret', rest')" and f: "fs' = (sf0, fv') # rest'"
      using infos_loop_Cons_Some [OF Cons.prems(1) [unfolded p]] by blast
    show ?thesis using Cons.IH [OF r, of k] Cons.prems(2,3,4) Suc f by simp
  qed
qed

text \<open>
  What the schema walker decides for a field does not change once it has walked the
  field: an emitted field is emitted again, and a record it went into is gone into
  again, whatever the flags.
\<close>

lemma infosStep_again:
  "infosStep h addr ro sf fv = IUnexported \<Longrightarrow> infosStep h a r sf fv = IUnexported"
  "infosStep h addr ro sf fv = IEmits fv1 \<Longrightarrow>
     infosStep h a r sf fv1 = IEmits fv1 \<and> TypeOf fv1 = TypeOf fv"
  by (auto simp: infosStep_def infosPtrElem_def infosIfaceElem_def
           split: if_splits govalue.splits option.splits)

lemma infosStep_again_Descends:
  assumes "infosStep h addr ro sf fv = IDescends fv1 e1 n fs a2 r2"
    and "fieldTypes fs' = fieldTypes fs"
  shows "(\<exists>e1' a2' r2'.
           infosStep h a r sf (infosSetElem fv1 e1 (VStruct n fs')) =
             IDescends (infosSetElem fv1 e1 (VStruct n fs')) e1' n fs' a2' r2' \<and>
           infosSetElem (infosSetElem fv1 e1 (VStruct n fs')) e1' (VStruct n fs') =
             infosSetElem fv1 e1 (VStruct n fs')) \<and>
         TypeOf (infosSetElem fv1 e1 (VStruct n fs')) = TypeOf fv"
  using assms
  by (auto simp: infosStep_def infosPtrElem_def infosIfaceElem_def infosSetElem_def setElem_def
           split: if_splits govalue.splits option.splits)

text \<open>
  Schema computation is idempotent on the instance it leaves: a second computation,
  with whatever flags, returns the same schema and changes nothing.  So it finds no nil
  embedded pointer on its way: every one the first computation met has been set.
\<close>

lemma infos_loop_again:
  assumes "fetchStructFieldInfos_loop h addr ro fs = Some (ret, fs')"
  shows "fetchStructFieldInfos_loop h a r fs' = Some (ret, fs') \<and> fieldTypes fs' = fieldTypes fs"
  using assms
proof (induction "fieldsWeight fs" arbitrary: fs addr ro ret fs' a r rule: less_induct)
  case less
  show ?case
  proof (cases fs)
    case Nil
    then show ?thesis using less.prems by simp
  next
    case (Cons p rest)
    obtain sf fv where fs: "fs = (sf, fv) # rest" using Cons by (cases p) simp
    have R: "fetchStructFieldInfos_loop h a r rest' = Some (ret', rest') \<and>
             fieldTypes rest' = fieldTypes rest"
      if "fetchStructFieldInfos_loop h addr ro rest = Some (ret', rest')" for ret' rest'
      using less.hyps [of rest addr ro ret' rest' a r] that by (simp add: fs)
    note run = less.prems [unfolded fs infos_loop_Cons]
    show ?thesis
    proof (cases "infosStep h addr ro sf fv")
      case IUnexported
      with run obtain ret' rest' where
        rr: "fetchStructFieldInfos_loop h addr ro rest = Some (ret', rest')"
        and eq: "ret = ret'" "fs' = (sf, fv) # rest'"
        by (auto split: option.splits)
      show ?thesis
        using R [OF rr] infosStep_again(1) [OF IUnexported, of a r] eq
        by (simp add: fs infos_loop_Cons)
    next
      case IPanics
      with run show ?thesis by simp
    next
      case (IEmits fv1)
      with run obtain ret' rest' where
        rr: "fetchStructFieldInfos_loop h addr ro rest = Some (ret', rest')"
        and eq: "ret = ParseStructFieldJsonInfo h sf # ret'" "fs' = (sf, fv1) # rest'"
        by (auto split: option.splits)
      show ?thesis
        using R [OF rr] infosStep_again(2) [OF IEmits, of a r] eq
        by (simp add: fs infos_loop_Cons)
    next
      case (IDescends fv1 e1 n fs2 a2 r2)
      with run obtain sub fs2' ret' rest' where
        s: "fetchStructFieldInfos_loop h a2 r2 fs2 = Some (sub, fs2')"
        and rr: "fetchStructFieldInfos_loop h addr ro rest = Some (ret', rest')"
        and eq: "ret = sub @ ret'" "fs' = (sf, infosSetElem fv1 e1 (VStruct n fs2')) # rest'"
        by (auto split: option.splits)
      have S: "fetchStructFieldInfos_loop h a' r' fs2' = Some (sub, fs2') \<and>
               fieldTypes fs2' = fieldTypes fs2" for a' r'
        using less.hyps [of fs2 a2 r2 sub fs2' a' r'] infosStep_weight [OF IDescends, of rest] s
        by (simp add: fs)
      from infosStep_again_Descends [OF IDescends, of fs2' a r] S [of a r]
      obtain e1' a2' r2' where
        st: "infosStep h a r sf (infosSetElem fv1 e1 (VStruct n fs2')) =
               IDescends (infosSetElem fv1 e1 (VStruct n fs2')) e1' n fs2' a2' r2'"
        and bk: "infosSetElem (infosSetElem fv1 e1 (VStruct n fs2')) e1' (VStruct n fs2') =
               infosSetElem fv1 e1 (VStruct n fs2')"
        and ty: "TypeOf (infosSetElem fv1 e1 (VStruct n fs2')) = TypeOf fv"
        by blast
      show ?thesis
        using R [OF rr] S [of a2' r2'] st bk ty eq
        by (simp add: fs infos_loop_Cons)
    qed
  qed
qed

text \<open>
  Claim C9, as amended.  Let an instance hold a nil pointer in an embedded field that
  \<open>gotypes.IsFieldExportable\<close> accepts.  Unless the instance can be set
  (addressable and not read-only) and Go too treats the field as exported, the schema
  computation panics.  Otherwise, when \<open>fetchStructFieldInfos\<close> returns, it leaves
  that field pointing to a newly allocated value: the zero value of the element type,
  as its own schema computation leaves it when it is a record (so nil embedded pointers
  inside it are allocated in turn).  On the instance it leaves, a second schema
  computation returns the same schema and changes nothing, whatever the flags: no nil
  embedded pointer is left anywhere the walk goes.  \<open>FetchStructFieldValueSetV2\<close>,
  the fetch for reading, hands back that very instance on the first use of the type
  (no cache entry).  A field that \<open>gotypes.IsFieldExportable\<close> rejects is left as
  it is, a nil pointer included.  On a well-typed instance that can be set, of a type
  with no embedded interface and no embedded pointer that is read-only, the schema
  computation returns.
\<close>

theorem schema_computation_allocates_nil_pointer:
  assumes "IsFieldExportable h (StructField.Name sf)" "Anonymous sf"
    and "i < length fs" "fs ! i = (sf, VPtr t None)"
  shows "(\<not> addr \<or> ro \<or> PkgPath sf \<noteq> [] \<longrightarrow>
            fetchStructFieldInfos h addr ro (VStruct n fs) = None) \<and>
         (\<forall>ret v'. fetchStructFieldInfos h True False (VStruct n fs) = Some (ret, v') \<longrightarrow>
            (\<exists>fs' w. v' = VStruct n fs' \<and> length fs' = length fs \<and>
               fs' ! i = (sf, VPtr t (Some w)) \<and>
               (case Zero t of
                  VStruct m fs2 \<Rightarrow>
                    \<exists>sub. fetchStructFieldInfos h True False (Zero t) = Some (sub, w)
                | _ \<Rightarrow> w = Zero t)) \<and>
            TypeOf v' = TypeOf (VStruct n fs) \<and>
            (\<forall>a r. fetchStructFieldInfos h a r v' = Some (ret, v'))) \<and>
         (\<forall>c s c' v'. c (TypeOf (VStruct n fs)) = None \<and>
            FetchStructFieldValueSetV2 h c True False (VStruct n fs) = Some (s, c', v') \<longrightarrow>
            (\<exists>ret. fetchStructFieldInfos h True False (VStruct n fs) = Some (ret, v'))) \<and>
         (\<forall>j sf' fv' a r ret v'. j < length fs \<and> fs ! j = (sf', fv') \<and>
            \<not> IsFieldExportable h (StructField.Name sf') \<and>
            fetchStructFieldInfos h a r (VStruct n fs) = Some (ret, v') \<longrightarrow>
            (\<exists>fs'. v' = VStruct n fs' \<and> fs' ! j = (sf', fv'))) \<and>
         (wellTypedFields fs \<and> \<not> embedsInterface h (fieldTypes fs) \<and>
          \<not> embedsReadOnlyPtr h (fieldTypes fs) \<longrightarrow>
            (\<exists>ret v'. fetchStructFieldInfos h True False (VStruct n fs) = Some (ret, v')))"
proof -
  have U: "\<exists>fs'. v' = VStruct n fs' \<and> fs' ! j = (sf', fv')"
    if "j < length fs \<and> fs ! j = (sf', fv') \<and> \<not> IsFieldExportable h (StructField.Name sf') \<and>
        fetchStructFieldInfos h a r (VStruct n fs) = Some (ret, v')" for j sf' fv' a r ret v'
  proof -
    from that obtain fs' where l: "fetchStructFieldInfos_loop h a r fs = Some (ret, fs')"
      and v: "v' = VStruct n fs'"
      by (auto simp: fetchStructFieldInfos_def split: option.splits)
    show ?thesis using infos_loop_nth_unexported [OF l, of j sf' fv'] that v by blast
  qed
  have P1: "fetchStructFieldInfos h addr ro (VStruct n fs) = None"
    if "\<not> addr \<or> ro \<or> PkgPath sf \<noteq> []"
  proof (cases "fetchStructFieldInfos_loop h addr ro fs")
    case None
    then show ?thesis by (simp add: fetchStructFieldInfos_def)
  next
    case (Some p)
    then show ?thesis
      using infos_loop_nth_alloc [OF assms(1,2), of addr ro fs "fst p" "snd p" i t] assms(3,4) that
      by auto
  qed
  have A: "(\<exists>fs' w. v' = VStruct n fs' \<and> length fs' = length fs \<and>
               fs' ! i = (sf, VPtr t (Some w)) \<and>
               (case Zero t of
                  VStruct m fs2 \<Rightarrow>
                    \<exists>sub. fetchStructFieldInfos h True False (Zero t) = Some (sub, w)
                | _ \<Rightarrow> w = Zero t)) \<and>
            TypeOf v' = TypeOf (VStruct n fs) \<and>
            (\<forall>a r. fetchStructFieldInfos h a r v' = Some (ret, v'))"
    if "fetchStructFieldInfos h True False (VStruct n fs) = Some (ret, v')" for ret v'
  proof -
    from that obtain fs' where l: "fetchStructFieldInfos_loop h True False fs = Some (ret, fs')"
      and v: "v' = VStruct n fs'"
      by (auto simp: fetchStructFieldInfos_def split: option.splits)
    have 1: "\<exists>fs' w. v' = VStruct n fs' \<and> length fs' = length fs \<and>
               fs' ! i = (sf, VPtr t (Some w)) \<and>
               (case Zero t of
                  VStruct m fs2 \<Rightarrow>
                    \<exists>sub. fetchStructFieldInfos h True False (Zero t) = Some (sub, w)
                | _ \<Rightarrow> w = Zero t)"
      using infos_loop_nth_alloc [OF assms(1,2) l assms(3,4)] infos_loop_length [OF l] v by blast
    have 2: "TypeOf v' = TypeOf (VStruct n fs)"
      using infos_loop_again [OF l] v by simp
    have 3: "fetchStructFieldInfos h a r v' = Some (ret, v')" for a r
      using infos_loop_again [OF l, of a r] v by (simp add: fetchStructFieldInfos_def)
    show ?thesis using 1 2 3 by blast
  qed
  have P3: "\<exists>ret. fetchStructFieldInfos h True False (VStruct n fs) = Some (ret, v')"
    if "c (TypeOf (VStruct n fs)) = None"
       "FetchStructFieldValueSetV2 h c True False (VStruct n fs) = Some (s, c', v')" for c s c' v'
  proof -
    from that obtain f v1 where
      1: "fetchStructFieldInfos h True False (VStruct n fs) = Some (f, v1)"
      and 3: "map_option (\<lambda>(values, index', v2). v2)
                (fetchStructFieldValueV2s h True False v1 False 0) = Some v'"
      by (auto simp: FetchStructFieldValueSetV2_def cachefetchStructFieldInfos_def Let_def
               simp del: TypeOf_VStruct split: option.splits)
    from 1 obtain fs' where v1: "v1 = VStruct n fs'"
      by (auto simp: fetchStructFieldInfos_def split: option.splits)
    obtain ret index' where
      "fetchStructFieldValueV2s_loop h True False fs' False 0 = Some (ret, index', fs')"
      using V2_read by blast
    then have "v' = v1" using 3 v1 by (simp add: fetchStructFieldValueV2s_def)
    then show ?thesis using 1 by blast
  qed
  have P4: "wellTypedFields fs \<and> \<not> embedsInterface h (fieldTypes fs) \<and>
          \<not> embedsReadOnlyPtr h (fieldTypes fs) \<longrightarrow>
            (\<exists>ret v'. fetchStructFieldInfos h True False (VStruct n fs) = Some (ret, v'))"
    using infos_typed_total [of fs h] by (auto simp: fetchStructFieldInfos_def)
  show ?thesis using P1 A P3 U P4 by blast
qed

theorem schema_computation_allocates_nil_pointer_witness:
  "fetchStructFieldInfos specCollaborators True False (valueT None) =
     Some (map (ParseStructFieldJsonInfo specCollaborators)
             [plainField ''X'', plainField ''Y'', plainField ''Z''],
           valueT (Some (Zero typeA))) \<and>
   fetchStructFieldInfos specCollaborators False True (valueT (Some (Zero typeA))) =
     Some (map (ParseStructFieldJsonInfo specCollaborators)
             [plainField ''X'', plainField ''Y'', plainField ''Z''],
           valueT (Some (Zero typeA))) \<and>
   FetchStructFieldValueSetV2 specCollaborators emptyCache True False (valueT None) =
     Some (\<lparr>Infos = map (ParseStructFieldJsonInfo specCollaborators)
                      [plainField ''X'', plainField ''Y'', plainField ''Z''],
            Values = [\<lparr>Value = \<lparr>data = VBasic ''int'' [], flagRO = False\<rparr>, Index = 0\<rparr>,
                      \<lparr>Value = \<lparr>data = VBasic ''int'' [], flagRO = False\<rparr>, Index = 1\<rparr>,
                      \<lparr>Value = \<lparr>data = VBasic ''int'' ''7'', flagRO = False\<rparr>, Index = 2\<rparr>]\<rparr>,
           cacheOf (TypeOf (valueT None))
             (map (ParseStructFieldJsonInfo specCollaborators)
                [plainField ''X'', plainField ''Y'', plainField ''Z'']),
           valueT (Some (Zero typeA))) \<and>
   fetchStructFieldInfos specCollaborators True False (valueD None) =
     Some (map (ParseStructFieldJsonInfo specCollaborators)
             [plainField ''N'', plainField ''X'', plainField ''Z''],
           valueD (Some (valueC (Some (Zero typeB)))))"
  using schema_computation_allocates_nil_pointer
    [of specCollaborators "embeddedField ''A''" 0
        "[(embeddedField ''A'', VPtr typeA None), (plainField ''Z'', VBasic ''int'' ''7'')]"
        typeA True False "''T''"]
  by (simp add: example_defs run_defs)

text \<open>
  The claim as stated fails.  On an instance of \<open>T\<close> that is not addressable
  (\<open>reflect.ValueOf(T{})\<close>) the schema computation panics at the nil \<open>*A\<close>, and so
  does the fetch for reading on the first use of \<open>T\<close>: nothing is set.  And in
  \<open>V\<close> the embedded \<open>*a\<close> is unexported: the walk skips it and leaves it nil.
\<close>

theorem schema_computation_not_settable_counterexample:
  "fetchStructFieldInfos specCollaborators False False (valueT None) = None \<and>
   FetchStructFieldValueSetV2 specCollaborators emptyCache False False (valueT None) = None \<and>
   fetchStructFieldInfos specCollaborators True False (valueV None) =
     Some ([ParseStructFieldJsonInfo specCollaborators (plainField ''Z'')], valueV None)"
  by (simp add: example_defs run_defs)


section \<open>Write mode and the cached schema\<close>

lemma fetchStructFieldInfos_schema:
  assumes "wellTyped v" "TypeOf v = StructT n tf" "\<not> embedsInterface h tf"
    and "fetchStructFieldInfos h a b v = Some (r, v')"
  shows "r = ComputeSchema h tf \<and> wellTyped v' \<and> TypeOf v' = StructT n tf"
proof -
  from assms(4) obtain m fs fs' where v: "v = VStruct m fs" and v': "v' = VStruct m fs'"
    and l: "fetchStructFieldInfos_loop h a b fs = Some (r, fs')"
    by (auto simp: fetchStructFieldInfos_def split: govalue.splits option.splits)
  have "m = n" "fieldTypes fs = tf" "wellTypedFields fs" using assms(1,2) v by simp_all
  then show ?thesis using infos_typed_Some [OF _ _ l] assms(3) v' by simp
qed

lemma cacheValid_schema:
  assumes "cacheValid h c" "c (StructT n tf) = Some r" "\<not> embedsInterface h tf"
  shows "r = ComputeSchema h tf"
proof -
  from assms(1,2) obtain a b v v' where
    "wellTyped v" "TypeOf v = StructT n tf" "fetchStructFieldInfos h a b v = Some (r, v')"
    unfolding cacheValid_def by blast
  then show ?thesis using fetchStructFieldInfos_schema assms(3) by blast
qed

lemma cacheValid_empty: "cacheValid h Map.empty"
  by (simp add: cacheValid_def)

lemma cacheValid_cachefetch:
  assumes "cacheValid h c" "wellTyped v" "cachefetchStructFieldInfos h c a b v = Some (r, c', v')"
  shows "cacheValid h c'"
proof (cases "c (TypeOf v)")
  case (Some r0)
  then show ?thesis using assms by (simp add: cachefetchStructFieldInfos_def)
next
  case None
  then obtain f where f: "fetchStructFieldInfos h a b v = Some (f, v')" and c': "c' = c(TypeOf v \<mapsto> f)"
    using assms(3) by (auto simp: cachefetchStructFieldInfos_def Let_def split: option.splits)
  show ?thesis
    unfolding cacheValid_def c'
  proof (intro allI impI)
    fix t r'
    assume "(c(TypeOf v \<mapsto> f)) t = Some r'"
    then show "\<exists>a ro v v'. wellTyped v \<and> TypeOf v = t \<and> fetchStructFieldInfos h a ro v = Some (r', v')"
      using assms(1,2) f unfolding cacheValid_def by (cases "t = TypeOf v") auto
  qed
qed

lemma cachefetch_schema:
  assumes "cacheValid h c" "wellTypedFields fs" "\<not> embedsInterface h (fieldTypes fs)"
    and "cachefetchStructFieldInfos h c a b (VStruct n fs) = Some (r, c', v')"
  shows "r = ComputeSchema h (fieldTypes fs) \<and>
         (\<exists>fs'. v' = VStruct n fs' \<and> wellTypedFields fs' \<and> fieldTypes fs' = fieldTypes fs)"
proof (cases "c (TypeOf (VStruct n fs))")
  case (Some r0)
  then have "r = r0" "v' = VStruct n fs"
    using assms(4) by (simp_all add: cachefetchStructFieldInfos_def)
  then show ?thesis using cacheValid_schema [OF assms(1), of n "fieldTypes fs" r0] Some assms(2,3)
    by simp
next
  case None
  then have f: "fetchStructFieldInfos h a b (VStruct n fs) = Some (r, v')"
    using assms(4) by (auto simp: cachefetchStructFieldInfos_def Let_def split: option.splits)
  from f obtain fs' where v': "v' = VStruct n fs'"
    by (auto simp: fetchStructFieldInfos_def split: option.splits)
  show ?thesis
    using fetchStructFieldInfos_schema [OF _ _ assms(3) f, of n] assms(2) v' by simp
qed

lemma cachefetch_total:
  assumes "wellTypedFields fs" "\<not> embedsInterface h (fieldTypes fs)"
    "\<not> embedsReadOnlyPtr h (fieldTypes fs)"
  shows "\<exists>r c' v'. cachefetchStructFieldInfos h c True False (VStruct n fs) = Some (r, c', v')"
proof (cases "c (TypeOf (VStruct n fs))")
  case (Some r0)
  then show ?thesis by (simp add: cachefetchStructFieldInfos_def)
next
  case None
  obtain ret fs' where "fetchStructFieldInfos_loop h True False fs = Some (ret, fs')"
    using infos_typed_total [OF assms] by blast
  then show ?thesis using None
    by (simp add: cachefetchStructFieldInfos_def fetchStructFieldInfos_def)
qed

text \<open>
  Claim C3, as amended.  In write mode, on a record that can be set (addressable and
  not read-only), a nil pointer in an embedded field that both
  \<open>gotypes.IsFieldExportable\<close> and Go treat as exported is walked exactly as the same
  field pointing to a new zero value, and the field is left pointing to a value.  A nil
  embedded interface is not allocated: in write mode too it is skipped with one
  reserved index, whatever the flags.  For a well-typed instance of a type in which the
  walkers meet no embedded interface, and a valid cache,
  \<open>FetchStructFieldValueSetForWriteV2\<close> returns on an instance that can be set (when
  no embedded pointer of the type is read-only), and whenever it returns, whatever the
  flags, \<open>Values\<close> has as many entries as \<open>Infos\<close>.
\<close>

theorem write_mode_allocates_embedded_pointers:
  "(IsFieldExportable h (StructField.Name sf) \<and> Anonymous sf \<longrightarrow>
      (PkgPath sf = [] \<longrightarrow>
         fetchStructFieldValueV2s_loop h True False ((sf, VPtr t None) # rest) True index =
           fetchStructFieldValueV2s_loop h True False ((sf, VPtr t (Some (Zero t))) # rest) True index \<and>
         (\<forall>ret index' fs'.
            fetchStructFieldValueV2s_loop h True False ((sf, VPtr t None) # rest) True index =
              Some (ret, index', fs') \<longrightarrow> (\<exists>w rest'. fs' = (sf, VPtr t (Some w)) # rest'))) \<and>
      fetchStructFieldValueV2s_loop h addr ro ((sf, VInterface m None) # rest) True index =
        (case fetchStructFieldValueV2s_loop h addr ro rest True (index + 1) of
           None \<Rightarrow> None
         | Some (ret, index', rest') \<Rightarrow> Some (ret, index', (sf, VInterface m None) # rest'))) \<and>
   (wellTypedFields fs \<and> \<not> embedsInterface h (fieldTypes fs) \<and> cacheValid h c \<longrightarrow>
      (\<not> embedsReadOnlyPtr h (fieldTypes fs) \<longrightarrow>
         (\<exists>s c' v'. FetchStructFieldValueSetForWriteV2 h c True False (VStruct n fs) = Some (s, c', v'))) \<and>
      (\<forall>a r s c' v'.
         FetchStructFieldValueSetForWriteV2 h c a r (VStruct n fs) = Some (s, c', v') \<longrightarrow>
         length (Values s) = length (Infos s)))"
proof -
  have P1: "fetchStructFieldValueV2s_loop h True False ((sf, VPtr t None) # rest) True index =
        fetchStructFieldValueV2s_loop h True False ((sf, VPtr t (Some (Zero t))) # rest) True index"
    if E: "IsFieldExportable h (StructField.Name sf) \<and> Anonymous sf" and G: "PkgPath sf = []"
  proof -
    have st: "valueStep h True False True sf (VPtr t tgt) =
                (case Zero t of
                   VStruct n fs \<Rightarrow> Descends (VPtr t (Some (Zero t))) n fs True False
                 | _ \<Rightarrow> Emits (VPtr t (Some (Zero t))) \<lparr>data = Zero t, flagRO = False\<rparr>)"
      if "tgt = None \<or> tgt = Some (Zero t)" for tgt
      using that E G
      by (auto simp: valueStep_def valueElem_def fieldRO_def split: govalue.splits)
    show ?thesis
      by (cases "Zero t") (simp_all add: V2_loop_Cons st)
  qed
  have P2: "\<exists>w rest'. fs' = (sf, VPtr t (Some w)) # rest'"
    if E: "IsFieldExportable h (StructField.Name sf) \<and> Anonymous sf" and G: "PkgPath sf = []"
      and R: "fetchStructFieldValueV2s_loop h True False ((sf, VPtr t None) # rest) True index =
           Some (ret, index', fs')" for ret index' fs'
  proof -
    have "valueElem True False (fieldRO False sf) True (VPtr t None) =
            Elem (VPtr t (Some (Zero t))) (Zero t) True False"
      using G by (simp add: valueElem_def fieldRO_def)
    then show ?thesis using E R
      by (auto simp: V2_loop_Cons valueStep_def setElem_def
               split: govalue.splits option.splits if_splits)
  qed
  have P3: "fetchStructFieldValueV2s_loop h addr ro ((sf, VInterface m None) # rest) True index =
        (case fetchStructFieldValueV2s_loop h addr ro rest True (index + 1) of
           None \<Rightarrow> None
         | Some (ret, index', rest') \<Rightarrow> Some (ret, index', (sf, VInterface m None) # rest'))"
    if "IsFieldExportable h (StructField.Name sf) \<and> Anonymous sf"
  proof -
    have "valueStep h addr ro True sf (VInterface m None) = NilSkipped"
      using that by (simp add: valueStep_def valueElem_def)
    then show ?thesis by (simp add: V2_loop_Cons)
  qed
  have P4: "\<exists>s c' v'. FetchStructFieldValueSetForWriteV2 h c True False (VStruct n fs) = Some (s, c', v')"
    if H: "wellTypedFields fs \<and> \<not> embedsInterface h (fieldTypes fs) \<and> cacheValid h c"
      and N: "\<not> embedsReadOnlyPtr h (fieldTypes fs)"
  proof -
    obtain r c' v1 where
      1: "cachefetchStructFieldInfos h c True False (VStruct n fs) = Some (r, c', v1)"
      using cachefetch_total [of fs h c n] H N by blast
    then obtain fs1 where v1: "v1 = VStruct n fs1" "wellTypedFields fs1" "fieldTypes fs1 = fieldTypes fs"
      using cachefetch_schema [OF _ _ _ 1] H by blast
    obtain ret index' fs2 where
      "fetchStructFieldValueV2s_loop h True False fs1 True 0 = Some (ret, index', fs2)"
      using V2_write_total [of fs1 h 0] v1 H N by auto
    then show ?thesis using 1 v1
      by (simp add: FetchStructFieldValueSetForWriteV2_def fetchStructFieldValueV2s_def)
  qed
  have P5: "length (Values s) = length (Infos s)"
    if H: "wellTypedFields fs \<and> \<not> embedsInterface h (fieldTypes fs) \<and> cacheValid h c"
      and R: "FetchStructFieldValueSetForWriteV2 h c a r (VStruct n fs) = Some (s, c', v')"
    for a r s c' v'
  proof -
    from R obtain q v1 vals index' where
      1: "cachefetchStructFieldInfos h c a r (VStruct n fs) = Some (q, c', v1)"
      and 2: "fetchStructFieldValueV2s h a r v1 True 0 = Some (vals, index', v')"
      and s: "s = \<lparr>Infos = q, Values = vals\<rparr>"
      by (auto simp: FetchStructFieldValueSetForWriteV2_def split: option.splits)
    from cachefetch_schema [OF _ _ _ 1] H obtain fs1 where
      q: "q = ComputeSchema h (fieldTypes fs)" and
      v1: "v1 = VStruct n fs1" "wellTypedFields fs1" "fieldTypes fs1 = fieldTypes fs"
      by blast
    from 2 v1 obtain fs2 where
      "fetchStructFieldValueV2s_loop h a r fs1 True 0 = Some (vals, index', fs2)"
      by (auto simp: fetchStructFieldValueV2s_def split: option.splits)
    then have "length vals = length (ComputeSchema h (fieldTypes fs1))"
      using V2_write_typed [of fs1 h a r 0 vals index' fs2] v1 H by simp
    then show ?thesis using q s v1 by simp
  qed
  show ?thesis using P1 P2 P3 P4 P5 by blast
qed

theorem write_mode_allocates_embedded_pointers_witness:
  "FetchStructFieldValueSetForWriteV2 specCollaborators emptyCache True False (valueT None) =
     Some (\<lparr>Infos = map (ParseStructFieldJsonInfo specCollaborators) [plainField ''X'', plainField ''Y'', plainField ''Z''],
            Values = [\<lparr>Value = \<lparr>data = VBasic ''int'' [], flagRO = False\<rparr>, Index = 0\<rparr>, \<lparr>Value = \<lparr>data = VBasic ''int'' [], flagRO = False\<rparr>, Index = 1\<rparr>,
                      \<lparr>Value = \<lparr>data = VBasic ''int'' ''7'', flagRO = False\<rparr>, Index = 2\<rparr>]\<rparr>,
           cacheOf (TypeOf (valueT None))
             (map (ParseStructFieldJsonInfo specCollaborators) [plainField ''X'', plainField ''Y'', plainField ''Z'']),
           valueT (Some (Zero typeA))) \<and>
   fetchStructFieldValueV2s specCollaborators True False (valueT None) True 0 =
     Some ([\<lparr>Value = \<lparr>data = VBasic ''int'' [], flagRO = False\<rparr>, Index = 0\<rparr>, \<lparr>Value = \<lparr>data = VBasic ''int'' [], flagRO = False\<rparr>, Index = 1\<rparr>,
            \<lparr>Value = \<lparr>data = VBasic ''int'' ''7'', flagRO = False\<rparr>, Index = 2\<rparr>], 3, valueT (Some (Zero typeA)))"
  using write_mode_allocates_embedded_pointers
    [of specCollaborators "embeddedField ''A''" typeA "[(plainField ''Z'', VBasic ''int'' ''7'')]" 0
        True False "''I''"
        "[(embeddedField ''A'', VPtr typeA None), (plainField ''Z'', VBasic ''int'' ''7'')]"
        Map.empty "''T''"]
    cacheValid_empty [of specCollaborators]
  by (simp add: example_defs run_defs)

text \<open>
  The claim as stated fails for an embedded interface: for \<open>U\<close> with its interface
  nil, write mode leaves the interface nil and returns one value (\<open>Z\<close>, at index 1)
  against a schema of two policies.
\<close>

theorem write_mode_nil_interface_counterexample:
  "FetchStructFieldValueSetForWriteV2 specCollaborators emptyCache True False (valueU None) =
     Some (\<lparr>Infos = map (ParseStructFieldJsonInfo specCollaborators) [embeddedField ''I'', plainField ''Z''],
            Values = [\<lparr>Value = \<lparr>data = VBasic ''int'' ''7'', flagRO = False\<rparr>, Index = 1\<rparr>]\<rparr>,
           cacheOf (TypeOf (valueU None))
             (map (ParseStructFieldJsonInfo specCollaborators) [embeddedField ''I'', plainField ''Z'']),
           valueU None)"
  by (simp add: example_defs run_defs)

section \<open>The tag \<open>-\<close>\<close>

lemma strings_Split_single:
  "strings_Split s sep = [t] \<longleftrightarrow> s = t \<and> sep \<notin> set s"
proof (induction s arbitrary: t)
  case Nil
  show ?case by auto
next
  case (Cons c cs)
  show ?case
  proof (cases "c = sep")
    case True
    then show ?thesis using strings_Split_nonempty [of cs sep] by auto
  next
    case False
    obtain u us where sp: "strings_Split cs sep = u # us"
      using strings_Split_nonempty [of cs sep] by (cases "strings_Split cs sep") auto
    show ?thesis using False Cons.IH [of u] Cons.IH [of cs] sp by auto
  qed
qed

lemma strings_Split_dash_comma:
  "strings_Split (''-,'' @ opts) (CHR '','') = ''-'' # strings_Split opts (CHR '','')"
  by (simp add: strings_Split_Cons del: strings_Split.simps(2))

lemma ParseStructFieldJsonInfo_Ignore:
  "Ignore (ParseStructFieldJsonInfo h sf) = (map_of (Tag sf) ''json'' = Some ''-'')"
proof (cases "map_of (Tag sf) ''json''")
  case None
  then show ?thesis by (simp add: ParseStructFieldJsonInfo_nojson split: option.splits)
next
  case (Some val)
  obtain t ts where sp: "strings_Split val (CHR '','') = t # ts"
    using strings_Split_nonempty by (cases "strings_Split val (CHR '','')") auto
  have "(t = ''-'' \<and> ts = []) = (val = ''-'')"
    using strings_Split_single [of val "CHR '',''" "''-''"] sp by auto
  then show ?thesis
    by (simp add: ParseStructFieldJsonInfo_json [OF Some sp] Some Let_def split: option.splits)
qed

text \<open>
  Claim C2, as amended.  The parser marks a field ignored exactly when its \<open>json\<close>
  tag value is \<open>-\<close> alone.  The schema walker does not exclude such a field: for
  every field that \<open>gotypes.IsFieldExportable\<close> accepts and that is not embedded it
  emits the parsed policy at the position of the field, so a field tagged \<open>-\<close>
  stands in the schema with \<open>Ignore\<close> set.  A field whose \<open>json\<close> tag value is
  \<open>-\<close> followed by a comma and further tokens is not marked ignored; its \<open>Name\<close>
  is the value of the \<open>name\<close> tag key when there is one and \<open>-\<close> otherwise, and
  then \<open>-\<close> is its external name.
\<close>

theorem json_dash_tag:
  "Ignore (ParseStructFieldJsonInfo h sf) = (map_of (Tag sf) ''json'' = Some ''-'') \<and>
   (IsFieldExportable h (StructField.Name sf) \<and> \<not> Anonymous sf \<longrightarrow>
      fetchStructFieldInfos_loop h addr ro ((sf, fv) # rest) =
        (case fetchStructFieldInfos_loop h addr ro rest of
           None \<Rightarrow> None
         | Some (ret, rest') \<Rightarrow> Some (ParseStructFieldJsonInfo h sf # ret, (sf, fv) # rest')) \<and>
      (\<forall>ret fs'. map_of (Tag sf) ''json'' = Some ''-'' \<and>
         fetchStructFieldInfos_loop h addr ro ((sf, fv) # rest) = Some (ret, fs') \<longrightarrow>
         ret \<noteq> [] \<and> Ignore (hd ret) \<and> FieldName (hd ret) = StructField.Name sf)) \<and>
   (map_of (Tag sf) ''json'' = Some (''-,'' @ opts) \<longrightarrow>
      \<not> Ignore (ParseStructFieldJsonInfo h sf) \<and>
      Name (ParseStructFieldJsonInfo h sf) =
        (case map_of (Tag sf) ''name'' of None \<Rightarrow> ''-'' | Some v \<Rightarrow> v) \<and>
      (map_of (Tag sf) ''name'' = None \<longrightarrow>
         fst (MarshalName h (ParseStructFieldJsonInfo h sf)) = ''-''))"
proof -
  have P2: "fetchStructFieldInfos_loop h addr ro ((sf, fv) # rest) =
        (case fetchStructFieldInfos_loop h addr ro rest of
           None \<Rightarrow> None
         | Some (ret, rest') \<Rightarrow> Some (ParseStructFieldJsonInfo h sf # ret, (sf, fv) # rest'))"
    if "IsFieldExportable h (StructField.Name sf) \<and> \<not> Anonymous sf"
    using that by (simp add: infos_loop_Cons infosStep_def)
  have P2': "ret \<noteq> [] \<and> Ignore (hd ret) \<and> FieldName (hd ret) = StructField.Name sf"
    if E: "IsFieldExportable h (StructField.Name sf) \<and> \<not> Anonymous sf"
      and D: "map_of (Tag sf) ''json'' = Some ''-''"
      and R: "fetchStructFieldInfos_loop h addr ro ((sf, fv) # rest) = Some (ret, fs')"
    for ret fs'
  proof -
    from R P2 [OF E] obtain ret' where "ret = ParseStructFieldJsonInfo h sf # ret'"
      by (auto split: option.splits)
    moreover have "FieldName (ParseStructFieldJsonInfo h sf) = StructField.Name sf"
      by (simp add: ParseStructFieldJsonInfo_def Let_def split: option.splits)
    ultimately show ?thesis using ParseStructFieldJsonInfo_Ignore [of h sf] D by simp
  qed
  have P3: "\<not> Ignore (ParseStructFieldJsonInfo h sf) \<and>
      Name (ParseStructFieldJsonInfo h sf) =
        (case map_of (Tag sf) ''name'' of None \<Rightarrow> ''-'' | Some v \<Rightarrow> v) \<and>
      (map_of (Tag sf) ''name'' = None \<longrightarrow>
         fst (MarshalName h (ParseStructFieldJsonInfo h sf)) = ''-'')"
    if j: "map_of (Tag sf) ''json'' = Some (''-,'' @ opts)"
  proof -
    obtain u us where m: "strings_Split opts (CHR '','') = u # us"
      using strings_Split_nonempty by (cases "strings_Split opts (CHR '','')") auto
    have sp: "strings_Split (''-,'' @ opts) (CHR '','') = ''-'' # u # us"
      using strings_Split_dash_comma [of opts] m by simp
    have n: "Name (ParseStructFieldJsonInfo h sf) =
               (case map_of (Tag sf) ''name'' of None \<Rightarrow> ''-'' | Some v \<Rightarrow> v)"
      by (simp add: ParseStructFieldJsonInfo_json [OF j sp] Let_def del: applyOptions.simps
            split: option.splits)
    have i: "\<not> Ignore (ParseStructFieldJsonInfo h sf)"
      by (simp add: ParseStructFieldJsonInfo_Ignore j)
    show ?thesis using n i by (simp add: MarshalName_def)
  qed
  show ?thesis using ParseStructFieldJsonInfo_Ignore [of h sf] P2 P2' P3 by blast
qed

theorem json_dash_tag_witness:
  "Ignore (ParseStructFieldJsonInfo specCollaborators secretField) \<and>
   fetchStructFieldInfos_loop specCollaborators True False
     [(secretField, VBasic ''string'' ''s'')] =
     Some ([ParseStructFieldJsonInfo specCollaborators secretField],
           [(secretField, VBasic ''string'' ''s'')]) \<and>
   \<not> Ignore (ParseStructFieldJsonInfo specCollaborators
     \<lparr>StructField.Name = ''Dash'', PkgPath = [], Anonymous = False, Tag = [(''json'', ''-,string'')]\<rparr>) \<and>
   fst (MarshalName specCollaborators (ParseStructFieldJsonInfo specCollaborators
     \<lparr>StructField.Name = ''Dash'', PkgPath = [], Anonymous = False, Tag = [(''json'', ''-,string'')]\<rparr>)) = ''-''"
  using
    json_dash_tag [of specCollaborators secretField True False "VBasic ''string'' ''s''" "[]" "''''"]
    json_dash_tag [of specCollaborators
      "\<lparr>StructField.Name = ''Dash'', PkgPath = [], Anonymous = False, Tag = [(''json'', ''-,string'')]\<rparr>"
      True False "VBasic ''string'' ''s''" "[]" "''string''"]
  by (simp add: example_defs)

text \<open>
  The claim as stated fails twice.  The schema of \<open>Account\<close> holds the policy of
  \<open>Secret\<close>, tagged \<open>json:"-"\<close>, with \<open>Ignore\<close> set.  And a field tagged
  \<open>json:"-,string" name:"dash"\<close> has the name \<open>dash\<close>, not \<open>-\<close>.
\<close>

theorem json_dash_tag_counterexample:
  "fetchStructFieldInfos specCollaborators True False valueAccount =
     Some ([ParseStructFieldJsonInfo specCollaborators (plainField ''UserID''),
            ParseStructFieldJsonInfo specCollaborators secretField],
           valueAccount) \<and>
   Ignore (ParseStructFieldJsonInfo specCollaborators secretField) \<and>
   Name (ParseStructFieldJsonInfo specCollaborators
     \<lparr>StructField.Name = ''Dash'', PkgPath = [], Anonymous = False,
      Tag = [(''json'', ''-,string''), (''name'', ''dash'')]\<rparr>) = ''dash''"
  by (simp add: example_defs run_defs ParseStructFieldJsonInfo_def initialInfo_def
        applyOption_def)

section \<open>Properties of name resolution\<close>

lemma MarshalName_FieldName [simp]: "FieldName (snd (MarshalName h info)) = FieldName info"
  by (simp add: MarshalName_def Let_def)

lemma getStructFieldIndex_match_Cons:
  "getStructFieldIndex_match h (x # xs) name k =
     (if fieldMatches h x name then k else getStructFieldIndex_match h xs name (k + 1))"
  by (cases "MarshalName h x") (use MarshalName_FieldName [of h x] in \<open>auto simp: fieldMatches_def\<close>)

lemma GetStructFieldIndex_loop_Cons:
  "GetStructFieldIndex_loop h (x # xs) name k =
     (if fieldMatches h (Info x) name then k else GetStructFieldIndex_loop h xs name (k + 1))"
  by (cases "MarshalName h (Info x)")
     (use MarshalName_FieldName [of h "Info x"] in \<open>auto simp: fieldMatches_def\<close>)

declare getStructFieldIndex_match.simps(2) [simp del] GetStructFieldIndex_loop.simps(2) [simp del]

lemma getStructFieldIndex_match_first:
  "(getStructFieldIndex_match h infos name k = - 1 \<and> (\<forall>x \<in> set infos. \<not> fieldMatches h x name)) \<or>
   (\<exists>i < length infos. getStructFieldIndex_match h infos name k = k + int i \<and>
      fieldMatches h (infos ! i) name \<and> (\<forall>j < i. \<not> fieldMatches h (infos ! j) name))"
proof (induction infos arbitrary: k)
  case Nil
  show ?case by simp
next
  case (Cons x xs)
  show ?case
  proof (cases "fieldMatches h x name")
    case True
    then have "getStructFieldIndex_match h (x # xs) name k = k + int 0 \<and>
               fieldMatches h ((x # xs) ! 0) name \<and> (\<forall>j < 0. \<not> fieldMatches h ((x # xs) ! j) name)"
      by (simp add: getStructFieldIndex_match_Cons)
    then show ?thesis by blast
  next
    case False
    from Cons.IH [of "k + 1"] show ?thesis
    proof
      assume "getStructFieldIndex_match h xs name (k + 1) = - 1 \<and> (\<forall>x \<in> set xs. \<not> fieldMatches h x name)"
      then show ?thesis using False by (simp add: getStructFieldIndex_match_Cons)
    next
      assume "\<exists>i < length xs. getStructFieldIndex_match h xs name (k + 1) = k + 1 + int i \<and>
                fieldMatches h (xs ! i) name \<and> (\<forall>j < i. \<not> fieldMatches h (xs ! j) name)"
      then obtain i where i: "i < length xs"
        "getStructFieldIndex_match h xs name (k + 1) = k + 1 + int i"
        "fieldMatches h (xs ! i) name" "\<forall>j < i. \<not> fieldMatches h (xs ! j) name"
        by blast
      have "Suc i < length (x # xs) \<and>
            getStructFieldIndex_match h (x # xs) name k = k + int (Suc i) \<and>
            fieldMatches h ((x # xs) ! Suc i) name \<and>
            (\<forall>j < Suc i. \<not> fieldMatches h ((x # xs) ! j) name)"
        using i False by (auto simp: getStructFieldIndex_match_Cons less_Suc_eq_0_disj)
      then show ?thesis by blast
    qed
  qed
qed

lemma GetStructFieldIndex_loop_match:
  "GetStructFieldIndex_loop h fvs name k = getStructFieldIndex_match h (map Info fvs) name k"
  by (induction fvs arbitrary: k)
     (simp_all add: GetStructFieldIndex_loop_Cons getStructFieldIndex_match_Cons)

lemma getStructFieldIndex_match_at:
  assumes "i < length infos" "fieldMatches h (infos ! i) name"
    and "\<forall>j < i. \<not> fieldMatches h (infos ! j) name"
  shows "getStructFieldIndex_match h infos name 0 = int i"
proof -
  from getStructFieldIndex_match_first [of h infos name 0]
  show ?thesis
  proof
    assume "getStructFieldIndex_match h infos name 0 = - 1 \<and> (\<forall>x \<in> set infos. \<not> fieldMatches h x name)"
    then show ?thesis using assms(1,2) by auto
  next
    assume "\<exists>i' < length infos. getStructFieldIndex_match h infos name 0 = 0 + int i' \<and>
              fieldMatches h (infos ! i') name \<and> (\<forall>j < i'. \<not> fieldMatches h (infos ! j) name)"
    then obtain i' where i': "getStructFieldIndex_match h infos name 0 = int i'"
      "fieldMatches h (infos ! i') name" "\<forall>j < i'. \<not> fieldMatches h (infos ! j) name"
      by auto
    have "i' = i" using i' assms(2,3) by (meson linorder_neqE_nat)
    then show ?thesis using i' by simp
  qed
qed

text \<open>
  Claim C4, as amended.  Name resolution goes through the fields in schema order and
  returns the position of the first field that passes at least one of the four tests
  of the claim: the key equals the external name (\<open>MarshalName\<close>); the snake-case
  forms of the field name and of the key are equal; the key equals the field name; the
  capitalized key equals the field name.  The result is \<open>-1\<close> when no field passes
  any.  The tests are alternatives for one field and do not rank the fields: what
  decides between two fields is their order in the schema, not which test they pass.
  This holds of \<open>GetStructFieldIndex\<close> and of the loop over \<open>Infos\<close> in
  \<open>getStructFieldIndex\<close>.  A field \<open>UserID\<close> without a name is found under the key
  \<open>UserID\<close>, and under \<open>user_id\<close> when \<open>CamelSplit\<close> turns \<open>UserID\<close> into
  \<open>user_id\<close>, provided no field before it passes a test for that key.
\<close>

theorem name_resolution_first_matching_field:
  "((GetStructFieldIndex h fvs name = - 1 \<and> (\<forall>x \<in> set fvs. \<not> fieldMatches h (Info x) name)) \<or>
    (\<exists>i < length fvs. GetStructFieldIndex h fvs name = int i \<and>
       fieldMatches h (Info (fvs ! i)) name \<and> (\<forall>j < i. \<not> fieldMatches h (Info (fvs ! j)) name))) \<and>
   ((getStructFieldIndex_match h infos name 0 = - 1 \<and> (\<forall>x \<in> set infos. \<not> fieldMatches h x name)) \<or>
    (\<exists>i < length infos. getStructFieldIndex_match h infos name 0 = int i \<and>
       fieldMatches h (infos ! i) name \<and> (\<forall>j < i. \<not> fieldMatches h (infos ! j) name))) \<and>
   (i < length infos \<and> FieldName (infos ! i) = ''UserID'' \<and> Name (infos ! i) = [] \<and>
    CamelSplit h ''UserID'' ''_'' = ''user_id'' \<and>
    (\<forall>j < i. \<not> fieldMatches h (infos ! j) ''user_id'') \<longrightarrow>
      getStructFieldIndex_match h infos ''user_id'' 0 = int i) \<and>
   (i < length infos \<and> FieldName (infos ! i) = ''UserID'' \<and>
    (\<forall>j < i. \<not> fieldMatches h (infos ! j) ''UserID'') \<longrightarrow>
      getStructFieldIndex_match h infos ''UserID'' 0 = int i)"
proof -
  have P1: "(GetStructFieldIndex h fvs name = - 1 \<and> (\<forall>x \<in> set fvs. \<not> fieldMatches h (Info x) name)) \<or>
    (\<exists>i < length fvs. GetStructFieldIndex h fvs name = int i \<and>
       fieldMatches h (Info (fvs ! i)) name \<and> (\<forall>j < i. \<not> fieldMatches h (Info (fvs ! j)) name))"
    using getStructFieldIndex_match_first [of h "map Info fvs" name 0]
    by (auto simp: GetStructFieldIndex_def GetStructFieldIndex_loop_match)
  have P2: "(getStructFieldIndex_match h infos name 0 = - 1 \<and> (\<forall>x \<in> set infos. \<not> fieldMatches h x name)) \<or>
    (\<exists>i < length infos. getStructFieldIndex_match h infos name 0 = int i \<and>
       fieldMatches h (infos ! i) name \<and> (\<forall>j < i. \<not> fieldMatches h (infos ! j) name))"
    using getStructFieldIndex_match_first [of h infos name 0] by simp
  have P3: "getStructFieldIndex_match h infos ''user_id'' 0 = int i"
    if "i < length infos \<and> FieldName (infos ! i) = ''UserID'' \<and> Name (infos ! i) = [] \<and>
        CamelSplit h ''UserID'' ''_'' = ''user_id'' \<and>
        (\<forall>j < i. \<not> fieldMatches h (infos ! j) ''user_id'')"
  proof -
    have "fieldMatches h (infos ! i) ''user_id''"
      using that by (simp add: fieldMatches_def MarshalName_def)
    then show ?thesis using getStructFieldIndex_match_at that by blast
  qed
  have P4: "getStructFieldIndex_match h infos ''UserID'' 0 = int i"
    if "i < length infos \<and> FieldName (infos ! i) = ''UserID'' \<and>
        (\<forall>j < i. \<not> fieldMatches h (infos ! j) ''UserID'')"
  proof -
    have "fieldMatches h (infos ! i) ''UserID''"
      using that by (simp add: fieldMatches_def)
    then show ?thesis using getStructFieldIndex_match_at that by blast
  qed
  show ?thesis using P1 P2 P3 P4 by blast
qed

theorem name_resolution_first_matching_field_witness:
  "getStructFieldIndex_match specCollaborators
     (map (ParseStructFieldJsonInfo specCollaborators) [plainField ''Name'', plainField ''UserID'']) ''user_id'' 0 = 1 \<and>
   getStructFieldIndex_match specCollaborators
     (map (ParseStructFieldJsonInfo specCollaborators) [plainField ''Name'', plainField ''UserID'']) ''UserID'' 0 = 1 \<and>
   GetStructFieldIndex specCollaborators
     [\<lparr>Info = ParseStructFieldJsonInfo specCollaborators (plainField ''UserID''),
       SStructFieldValue.Value = \<lparr>data = VBasic ''int'' ''42'', flagRO = False\<rparr>\<rparr>] ''nope'' = - 1"
proof -
  let ?infos = "map (ParseStructFieldJsonInfo specCollaborators) [plainField ''Name'', plainField ''UserID'']"
  let ?fvs = "[\<lparr>Info = ParseStructFieldJsonInfo specCollaborators (plainField ''UserID''),
                 SStructFieldValue.Value = \<lparr>data = VBasic ''int'' ''42'', flagRO = False\<rparr>\<rparr>]"
  note T = name_resolution_first_matching_field [of specCollaborators ?fvs "''nope''" ?infos 1]
  have cs: "CamelSplit specCollaborators ''UserID'' ''_'' = ''user_id''"
    by (simp add: example_defs)
  have h1: "1 < length ?infos \<and> FieldName (?infos ! 1) = ''UserID'' \<and> Name (?infos ! 1) = [] \<and>
            CamelSplit specCollaborators ''UserID'' ''_'' = ''user_id'' \<and>
            (\<forall>j < 1. \<not> fieldMatches specCollaborators (?infos ! j) ''user_id'')"
    by (simp add: ParseStructFieldJsonInfo_nojson fieldMatches_def MarshalName_def example_defs)
  have h2: "1 < length ?infos \<and> FieldName (?infos ! 1) = ''UserID'' \<and>
            (\<forall>j < 1. \<not> fieldMatches specCollaborators (?infos ! j) ''UserID'')"
    by (simp add: ParseStructFieldJsonInfo_nojson fieldMatches_def MarshalName_def example_defs)
  have h3: "\<not> (\<exists>i < length ?fvs. fieldMatches specCollaborators (Info (?fvs ! i)) ''nope'')"
    by (simp add: ParseStructFieldJsonInfo_nojson fieldMatches_def MarshalName_def example_defs)
  from T h1 have 1: "getStructFieldIndex_match specCollaborators ?infos ''user_id'' 0 = 1" by simp
  from T h2 have 2: "getStructFieldIndex_match specCollaborators ?infos ''UserID'' 0 = 1" by simp
  from T h3 have 3: "GetStructFieldIndex specCollaborators ?fvs ''nope'' = - 1" by blast
  show ?thesis using 1 2 3 by simp
qed


text \<open>
  The claim as stated fails: the chain does not select the best match of the schema.
  Take the fields \<^verbatim>\<open>Foo `json:"bar"`\<close> and \<^verbatim>\<open>Baz `json:"Foo"`\<close>, in this order, and
  the key \<open>Foo\<close>.  The external name of \<open>Baz\<close> is \<open>Foo\<close>, an exact match by the
  first test, and that of \<open>Foo\<close> is \<open>bar\<close>; both resolvers return position 0, the
  field \<open>Foo\<close>, which passes only later tests.  This holds whatever the helpers
  compute.
\<close>

theorem name_resolution_exact_match_loses_counterexample:
  "\<forall>h. fst (MarshalName h (ParseStructFieldJsonInfo h fooField)) = ''bar'' \<and>
        fst (MarshalName h (ParseStructFieldJsonInfo h bazField)) = ''Foo'' \<and>
        getStructFieldIndex_match h
          [ParseStructFieldJsonInfo h fooField, ParseStructFieldJsonInfo h bazField] ''Foo'' 0 = 0 \<and>
        GetStructFieldIndex h
          [\<lparr>Info = ParseStructFieldJsonInfo h fooField,
            SStructFieldValue.Value = \<lparr>data = VBasic ''int'' ''1'', flagRO = False\<rparr>\<rparr>,
           \<lparr>Info = ParseStructFieldJsonInfo h bazField,
            SStructFieldValue.Value = \<lparr>data = VBasic ''int'' ''2'', flagRO = False\<rparr>\<rparr>] ''Foo'' = 0"
  by (simp add: fooField_def bazField_def ParseStructFieldJsonInfo_def initialInfo_def
        MarshalName_def GetStructFieldIndex_def
        getStructFieldIndex_match.simps(2) GetStructFieldIndex_loop.simps(2))

section \<open>Looking up a value by name\<close>

lemma getStructFieldIndex_scan_range:
  "i < int (length vs) \<Longrightarrow> 0 \<le> index \<Longrightarrow> index < int (length vs) \<Longrightarrow>
     \<exists>j. getStructFieldIndex_scan vs index i = Some j \<and> 0 \<le> j \<and> j < int (length vs)"
proof (induction vs index i rule: getStructFieldIndex_scan.induct)
  case (1 vs index i)
  show ?case
  proof (cases "0 \<le> i")
    case False
    then show ?thesis using "1.prems" by simp
  next
    case True
    then have n: "nat i < length vs" using "1.prems"(1) by simp
    show ?thesis
    proof (cases "Index (vs ! nat i) = index")
      case True
      then show ?thesis using \<open>0 \<le> i\<close> n "1.prems" by simp
    next
      case False
      then show ?thesis using \<open>0 \<le> i\<close> n "1.IH" "1.prems" by simp
    qed
  qed
qed

lemma getStructFieldIndex_match_nonneg:
  "0 \<le> k \<Longrightarrow> getStructFieldIndex_match h infos name k = - 1 \<or>
     0 \<le> getStructFieldIndex_match h infos name k"
  using getStructFieldIndex_match_first [of h infos name k] by auto

text \<open>
  A name that resolves in the schema is reported found whenever \<open>Values\<close> is not
  empty, whether or not an entry carries its schema index: when the reverse scan finds
  no entry, \<open>getStructFieldIndex\<close> returns the (clamped) index itself and \<open>GetValue\<close>
  hands out the entry at that position.  Only with no values at all is the result
  not found.
\<close>

lemma GetValueV2_found:
  assumes "getStructFieldIndex_match h (Infos s) name 0 \<noteq> - 1"
  shows "Values s \<noteq> [] \<Longrightarrow> \<exists>v. GetValueV2 h s name = Some (Some v, True)"
    and "Values s = [] \<Longrightarrow> GetValueV2 h s name = Some (None, False)"
proof -
  let ?m = "getStructFieldIndex_match h (Infos s) name 0"
  have m: "0 \<le> ?m" using getStructFieldIndex_match_nonneg [of 0 h "Infos s" name] assms by auto
  let ?index = "if ?m \<ge> int (length (Values s)) then int (length (Values s)) - 1 else ?m"
  have g: "getStructFieldIndex h s name = getStructFieldIndex_scan (Values s) ?index ?index"
    using m by (simp add: getStructFieldIndex_def Let_def)
  {
    assume ne: "Values s \<noteq> []"
    then have "0 \<le> ?index" "?index < int (length (Values s))" using m by auto
    then obtain j where "getStructFieldIndex_scan (Values s) ?index ?index = Some j"
      "0 \<le> j" "j < int (length (Values s))"
      using getStructFieldIndex_scan_range [of ?index "Values s" ?index] by blast
    then show "\<exists>v. GetValueV2 h s name = Some (Some v, True)"
      using g by (simp add: GetValueV2_def)
  }
  {
    assume "Values s = []"
    then show "GetValueV2 h s name = Some (None, False)"
      using g m by (simp add: GetValueV2_def)
  }
qed

text \<open>
  \<open>GetInterface\<close> answers as \<open>GetValue\<close> does, except for a value that
  reflection marks read-only: that one is found by \<open>GetValue\<close> and reported not
  found by \<open>GetInterface\<close>.
\<close>

lemma GetInterfaceV2_GetValueV2:
  "GetValueV2 h s name = Some (Some v, True) \<Longrightarrow>
     GetInterfaceV2 h s name =
       (if flagRO v then Some (None, False) else Some (Some (data v), True))"
  by (auto simp: GetValueV2_def GetInterfaceV2_def CanInterface_def Interface_def
           split: option.splits if_splits)

lemma GetInterface_GetValue:
  "GetValue h fvs name = Some (Some v, True) \<Longrightarrow>
     GetInterface h fvs name =
       (if flagRO v then Some (None, False) else Some (Some (data v), True))"
  by (auto simp: GetValue_def GetInterface_def CanInterface_def Interface_def Let_def
           split: option.splits if_splits)

text \<open>
  Claim C1.  The claim does not hold of the code.  Take \<open>T\<close> with its embedded
  \<open>*A\<close> nil and fetch it in read mode once the schema of \<open>T\<close> is cached: \<open>Infos\<close>
  is \<open>[X, Y, Z]\<close> and \<open>Values\<close> holds \<open>Z\<close> alone, with index 1.  The key \<open>y\<close>
  resolves to schema index 1, and \<open>GetValue\<close> returns the value of \<open>Z\<close> with
  \<open>found = true\<close>; \<open>GetInterface\<close> does the same for \<open>X\<close>.  On the same
  instance \<open>SStructFieldValueSet.GetValue\<close> reports \<open>y\<close> not found.
\<close>

theorem GetValueV2_absent_composed_field_found:
  "FetchStructFieldValueSetV2 specCollaborators
       (cacheOf (TypeOf (valueT None))
          (map (ParseStructFieldJsonInfo specCollaborators) [plainField ''X'', plainField ''Y'', plainField ''Z'']))
       True False (valueT None) =
     Some (\<lparr>Infos = map (ParseStructFieldJsonInfo specCollaborators) [plainField ''X'', plainField ''Y'', plainField ''Z''],
            Values = [\<lparr>Value = \<lparr>data = VBasic ''int'' ''7'', flagRO = False\<rparr>, Index = 1\<rparr>]\<rparr>,
           cacheOf (TypeOf (valueT None))
             (map (ParseStructFieldJsonInfo specCollaborators) [plainField ''X'', plainField ''Y'', plainField ''Z'']),
           valueT None) \<and>
   getStructFieldIndex_match specCollaborators
     (map (ParseStructFieldJsonInfo specCollaborators) [plainField ''X'', plainField ''Y'', plainField ''Z'']) ''y'' 0 = 1 \<and>
   GetValueV2 specCollaborators
     \<lparr>Infos = map (ParseStructFieldJsonInfo specCollaborators) [plainField ''X'', plainField ''Y'', plainField ''Z''],
      Values = [\<lparr>Value = \<lparr>data = VBasic ''int'' ''7'', flagRO = False\<rparr>, Index = 1\<rparr>]\<rparr> ''y'' =
     Some (Some \<lparr>data = VBasic ''int'' ''7'', flagRO = False\<rparr>, True) \<and>
   GetInterfaceV2 specCollaborators
     \<lparr>Infos = map (ParseStructFieldJsonInfo specCollaborators) [plainField ''X'', plainField ''Y'', plainField ''Z''],
      Values = [\<lparr>Value = \<lparr>data = VBasic ''int'' ''7'', flagRO = False\<rparr>, Index = 1\<rparr>]\<rparr> ''X'' =
     Some (Some (VBasic ''int'' ''7''), True) \<and>
   FetchStructFieldValueSet specCollaborators True False (valueT None) =
     Some ([\<lparr>Info = ParseStructFieldJsonInfo specCollaborators (plainField ''Z''),
             SStructFieldValue.Value = \<lparr>data = VBasic ''int'' ''7'', flagRO = False\<rparr>\<rparr>], valueT None) \<and>
   GetValue specCollaborators
     [\<lparr>Info = ParseStructFieldJsonInfo specCollaborators (plainField ''Z''),
       SStructFieldValue.Value = \<lparr>data = VBasic ''int'' ''7'', flagRO = False\<rparr>\<rparr>] ''y'' = Some (None, False)"
  by (simp add: example_defs run_defs ParseStructFieldJsonInfo_def initialInfo_def
        getStructFieldIndex_match.simps(2) GetStructFieldIndex_loop.simps(2)
        GetStructFieldIndex_def MarshalName_def getStructFieldIndex_def
        GetValueV2_def GetInterfaceV2_def GetValue_def CanInterface_def Interface_def)

end
